theory Spec2Isabelle
  imports Main "HOL-Library.AList" "HOL-Library.Multiset"
begin

section \<open>JavaScript values and the object-storage bucket\<close>

text \<open>
  The Pages Functions under \<open>apps/showcase/functions/api\<close> receive \<open>params.path\<close>
  either as an array of path segments or as one string, talk to an R2 bucket through
  \<open>get\<close> and \<open>head\<close>, and answer with a \<open>Response\<close>.  A bucket call resolves to an
  object, resolves to \<open>null\<close>, or rejects; the rejection carries the error's message.
  Strings are lists of characters: the handlers join, split, concatenate and compare
  them and test suffixes, none of which depends on the character set.
\<close>

datatype path_param = PathArray "string list" | PathString string

datatype 'a reply = Throws string | Absent | Present 'a

text \<open>
  Values as \<open>JSON.parse\<close> produces them, plus \<open>undefined\<close>.  The number type is left
  open (\<open>'n\<close>): the handlers only pass numbers through the builtins collected in
  \<open>js_env\<close> below.  An object is its table of own properties.
\<close>

datatype 'n jv =
    JUndef
  | JNull
  | JBool bool
  | JNum 'n
  | JStr string
  | JArr "'n jv list"
  | JObj "(string \<times> 'n jv) list"

text \<open>
  An object stored in the bucket: its byte body, and what \<open>await obj.json()\<close> gives
  for it (the parsed value, or the message of the error thrown for a malformed body).
\<close>

record 'n r2_object =
  obj_body :: string
  obj_json :: "string + 'n jv"

record 'n bucket =
  bucket_get :: "string \<Rightarrow> 'n r2_object reply"
  bucket_head :: "string \<Rightarrow> 'n r2_object reply"

text \<open>
  The body of a response: a text, the stream of a stored object, or
  \<open>JSON.stringify v\<close>, kept as the value \<open>v\<close> that is serialised.  The status is 200
  when the handler gives none; the headers are those the handler passes.
\<close>

datatype 'n resp_body = Text string | Stream string | Json "'n jv"

record 'n response =
  status :: nat
  body :: "'n resp_body"
  headers :: "(string \<times> string) list"

definition header :: "'n response \<Rightarrow> string \<Rightarrow> string option" where
  "header r name = map_of (headers r) name"

subsection \<open>String builtins\<close>

text \<open>\<open>Array.prototype.join\<close> on an array of strings.\<close>

fun join :: "string \<Rightarrow> string list \<Rightarrow> string" where
  "join sep [] = []"
| "join sep [x] = x"
| "join sep (x # y # ys) = x @ sep @ join sep (y # ys)"

text \<open>
  \<open>String.prototype.endsWith\<close>: the search string must fit, and the last
  \<open>length t\<close> characters of \<open>s\<close> must be \<open>t\<close>.
\<close>

definition endsWith :: "string \<Rightarrow> string \<Rightarrow> bool" where
  "endsWith s t = (length t \<le> length s \<and> drop (length s - length t) s = t)"

section \<open>The image handler (\<open>functions/api/image/[[path]].js\<close>)\<close>

definition imagePath :: "path_param \<Rightarrow> string" where
  "imagePath p = (case p of PathArray parts \<Rightarrow> join ''/'' parts | PathString s \<Rightarrow> s)"

definition contentType :: "string \<Rightarrow> string" where
  "contentType path =
     (if endsWith path ''.png'' then ''image/png''
      else if endsWith path ''.webp'' then ''image/webp''
      else if endsWith path ''.gif'' then ''image/gif''
      else ''image/jpeg'')"

definition onRequest_image :: "'n bucket \<Rightarrow> path_param \<Rightarrow> 'n response" where
  "onRequest_image env_bucket p =
     (case bucket_get env_bucket (imagePath p) of
        Throws msg \<Rightarrow>
          \<lparr>status = 500, body = Text (''Error: '' @ msg), headers = []\<rparr>
      | Absent \<Rightarrow>
          \<lparr>status = 404, body = Text ''Image not found'', headers = []\<rparr>
      | Present object \<Rightarrow>
          \<lparr>status = 200, body = Stream (obj_body object),
           headers = [(''Content-Type'', contentType (imagePath p)),
                      (''Cache-Control'', ''public, max-age=31536000''),
                      (''Access-Control-Allow-Origin'', ''*'')]\<rparr>)"

section \<open>JavaScript builtins used by the chapter handler\<close>

text \<open>
  What the engine provides and the handlers use on numbers and errors.  Numbers stay
  abstract: \<open>parseInt\<close>, \<open>x - 1\<close>, the string of a number (in a template literal and
  as a property key), its truthiness, and the number of a length.  \<open>+0\<close> and \<open>-0\<close> are
  one value here, since none of these builtins tells them apart; \<open>Map\<close> then compares
  numbers by equality.  \<open>type_error v what\<close> is the message of the \<open>TypeError\<close> raised
  for value \<open>v\<close> when reading property \<open>what\<close> of it, iterating it or converting it.
\<close>

record 'n js_env =
  parseInt :: "string \<Rightarrow> 'n"
  num_minus_one :: "'n \<Rightarrow> 'n"
  num_to_string :: "'n \<Rightarrow> string"
  num_truthy :: "'n \<Rightarrow> bool"
  num_of_nat :: "nat \<Rightarrow> 'n"
  type_error :: "'n jv \<Rightarrow> string \<Rightarrow> string"

text \<open>\<open>String.prototype.split\<close> with a one-character separator.\<close>

fun split :: "char \<Rightarrow> string \<Rightarrow> string list" where
  "split c [] = [[]]"
| "split c (x # xs) =
     (if x = c then [] # split c xs
      else (x # hd (split c xs)) # tl (split c xs))"

text \<open>The decimal numeral of a natural number: the property key of an array index.\<close>

fun decimal :: "nat \<Rightarrow> string" where
  "decimal n =
     (if n < 10 then [char_of (48 + n)]
      else decimal (n div 10) @ [char_of (48 + n mod 10)])"

declare decimal.simps [simp del]

definition truthy :: "'n js_env \<Rightarrow> 'n jv \<Rightarrow> bool" where
  "truthy env v =
     (case v of
        JUndef \<Rightarrow> False
      | JNull \<Rightarrow> False
      | JBool b \<Rightarrow> b
      | JNum n \<Rightarrow> num_truthy env n
      | JStr s \<Rightarrow> s \<noteq> []
      | JArr xs \<Rightarrow> True
      | JObj ps \<Rightarrow> True)"

text \<open>\<open>v || d\<close>.\<close>

definition or_else :: "'n js_env \<Rightarrow> 'n jv \<Rightarrow> 'n jv \<Rightarrow> 'n jv" where
  "or_else env v d = (if truthy env v then v else d)"

text \<open>
  \<open>v.name\<close> for the identifiers the handlers read (\<open>chapters\<close>, \<open>scenes\<close>, \<open>segments\<close>,
  \<open>id\<close>, \<open>title\<close>, \<open>length\<close> and the other field names): a \<open>TypeError\<close> on \<open>null\<close> and
  \<open>undefined\<close>; the own property of an object, or \<open>undefined\<close>; the length of an array
  or a string, and \<open>undefined\<close> for their other names (none of the identifiers names a
  prototype method); \<open>undefined\<close> on booleans and numbers.
\<close>

definition member :: "'n js_env \<Rightarrow> 'n jv \<Rightarrow> string \<Rightarrow> string + 'n jv" where
  "member env v name =
     (case v of
        JUndef \<Rightarrow> Inl (type_error env v name)
      | JNull \<Rightarrow> Inl (type_error env v name)
      | JBool b \<Rightarrow> Inr JUndef
      | JNum n \<Rightarrow> Inr JUndef
      | JStr s \<Rightarrow> Inr (if name = ''length'' then JNum (num_of_nat env (length s)) else JUndef)
      | JArr xs \<Rightarrow> Inr (if name = ''length'' then JNum (num_of_nat env (length xs)) else JUndef)
      | JObj ps \<Rightarrow> Inr (case map_of ps name of None \<Rightarrow> JUndef | Some w \<Rightarrow> w))"

text \<open>
  \<open>v[n]\<close> for a number \<open>n\<close>.  The property key is the string of \<open>n\<close>.  An array or a
  string has an element under that key exactly when the key is the decimal numeral of
  a position (the string of a number names no other property of theirs); an object is
  looked up under the key.
\<close>

definition index_of_key :: "nat \<Rightarrow> string \<Rightarrow> nat option" where
  "index_of_key len key = List.find (\<lambda>i. decimal i = key) [0..<len]"

definition element :: "'n js_env \<Rightarrow> 'n jv \<Rightarrow> 'n \<Rightarrow> string + 'n jv" where
  "element env v n =
     (case v of
        JUndef \<Rightarrow> Inl (type_error env v (num_to_string env n))
      | JNull \<Rightarrow> Inl (type_error env v (num_to_string env n))
      | JBool b \<Rightarrow> Inr JUndef
      | JNum m \<Rightarrow> Inr JUndef
      | JStr s \<Rightarrow>
          Inr (case index_of_key (length s) (num_to_string env n) of
                 Some i \<Rightarrow> JStr [s ! i]
               | None \<Rightarrow> JUndef)
      | JArr xs \<Rightarrow>
          Inr (case index_of_key (length xs) (num_to_string env n) of
                 Some i \<Rightarrow> xs ! i
               | None \<Rightarrow> JUndef)
      | JObj ps \<Rightarrow>
          Inr (case map_of ps (num_to_string env n) of None \<Rightarrow> JUndef | Some w \<Rightarrow> w))"

text \<open>
  \<open>for (const x of v)\<close>: the elements of an array, the characters of a string, a
  \<open>TypeError\<close> for every other value.
\<close>

definition iterate :: "'n js_env \<Rightarrow> 'n jv \<Rightarrow> string + 'n jv list" where
  "iterate env v =
     (case v of
        JArr xs \<Rightarrow> Inr xs
      | JStr s \<Rightarrow> Inr (map (\<lambda>c. JStr [c]) s)
      | _ \<Rightarrow> Inl (type_error env v ''Symbol.iterator''))"

text \<open>
  The string of a value in a template literal.  An array joins the strings of its
  elements with commas, \<open>null\<close> and \<open>undefined\<close> elements giving the empty string.  An
  object gives \<open>[object Object]\<close>, unless it has an own property \<open>toString\<close>: a parsed
  value is never callable, so the conversion finds no primitive and raises a
  \<open>TypeError\<close>.
\<close>

fun to_string :: "'n js_env \<Rightarrow> 'n jv \<Rightarrow> string + string"
  and element_strings :: "'n js_env \<Rightarrow> 'n jv list \<Rightarrow> string + string list" where
  "to_string env JUndef = Inr ''undefined''"
| "to_string env JNull = Inr ''null''"
| "to_string env (JBool b) = Inr (if b then ''true'' else ''false'')"
| "to_string env (JNum n) = Inr (num_to_string env n)"
| "to_string env (JStr s) = Inr s"
| "to_string env (JArr xs) =
     (case element_strings env xs of Inl e \<Rightarrow> Inl e | Inr ss \<Rightarrow> Inr (join '','' ss))"
| "to_string env (JObj ps) =
     (if map_of ps ''toString'' = None then Inr ''[object Object]''
      else Inl (type_error env (JObj ps) ''toString''))"
| "element_strings env [] = Inr []"
| "element_strings env (x # xs) =
     (case (if x = JNull \<or> x = JUndef then Inr [] else to_string env x) of
        Inl e \<Rightarrow> Inl e
      | Inr s \<Rightarrow> (case element_strings env xs of Inl e \<Rightarrow> Inl e | Inr ss \<Rightarrow> Inr (s # ss)))"

section \<open>The chapter handler (two versions)\<close>

text \<open>
  Both versions of \<open>onRequest\<close> for \<open>/api/chapter/[[path]]\<close> are the same text except for
  the function mapped over the segments to look for their images.  The handler is
  modelled once, with that function as a parameter, and returns the response together
  with the bucket operations it issued.  Besides the request and the bucket it takes
  \<open>race\<close>, which stands for the timing of the bucket calls (see \<open>promise_all\<close>).
\<close>

datatype bucket_op = Get string | Head string

record 'n image_check =
  check_id :: "'n jv"
  check_exists :: bool
  check_path :: string

definition pathParts :: "path_param \<Rightarrow> string list" where
  "pathParts p = (case p of PathArray parts \<Rightarrow> parts | PathString s \<Rightarrow> split CHR ''/'' s)"

definition json_response :: "nat \<Rightarrow> 'n jv \<Rightarrow> (string \<times> string) list \<Rightarrow> 'n response" where
  "json_response st v extra =
     \<lparr>status = st, body = Json v, headers = (''Content-Type'', ''application/json'') # extra\<rparr>"

definition error_body :: "string \<Rightarrow> 'n jv" where
  "error_body msg = JObj [(''error'', JStr msg)]"

text \<open>\<open>v?.name\<close> and \<open>v?.[n]\<close>.\<close>

definition opt_member :: "'n js_env \<Rightarrow> 'n jv \<Rightarrow> string \<Rightarrow> string + 'n jv" where
  "opt_member env v name = (if v = JNull \<or> v = JUndef then Inr JUndef else member env v name)"

definition opt_element :: "'n js_env \<Rightarrow> 'n jv \<Rightarrow> 'n \<Rightarrow> string + 'n jv" where
  "opt_element env v n = (if v = JNull \<or> v = JUndef then Inr JUndef else element env v n)"

text \<open>\<open>meta.chapters?.[chapterNum - 1]\<close>.\<close>

definition chapter_of :: "'n js_env \<Rightarrow> 'n jv \<Rightarrow> 'n \<Rightarrow> string + 'n jv" where
  "chapter_of env meta chapterNum =
     (case member env meta ''chapters'' of
        Inl e \<Rightarrow> Inl e
      | Inr chapters \<Rightarrow>
          opt_element env chapters (num_minus_one env chapterNum))"

text \<open>The two nested loops that fill \<open>segmentData\<close> with (segment, scene) pairs.\<close>

fun scene_segments :: "'n js_env \<Rightarrow> 'n jv list \<Rightarrow> string + ('n jv \<times> 'n jv) list" where
  "scene_segments env [] = Inr []"
| "scene_segments env (scene # scenes) =
     (case member env scene ''segments'' of
        Inl e \<Rightarrow> Inl e
      | Inr ss \<Rightarrow>
          (case iterate env (or_else env ss (JArr [])) of
             Inl e \<Rightarrow> Inl e
           | Inr segments \<Rightarrow>
               (case scene_segments env scenes of
                  Inl e \<Rightarrow> Inl e
                | Inr others \<Rightarrow> Inr (map (\<lambda>segment. (segment, scene)) segments @ others))))"

definition segmentData :: "'n js_env \<Rightarrow> 'n jv \<Rightarrow> string + ('n jv \<times> 'n jv) list" where
  "segmentData env chapter =
     (case member env chapter ''scenes'' of
        Inl e \<Rightarrow> Inl e
      | Inr sc \<Rightarrow>
          (case iterate env (or_else env sc (JArr [])) of
             Inl e \<Rightarrow> Inl e
           | Inr scenes \<Rightarrow> scene_segments env scenes))"

text \<open>
  The template literal
  \<open>${webtoonId}/assets/chapters/ch${chapterNum}/${segment.id}\<close> followed by an extension.
\<close>

definition asset_path :: "'n js_env \<Rightarrow> string \<Rightarrow> 'n \<Rightarrow> 'n jv \<Rightarrow> string \<Rightarrow> string + string" where
  "asset_path env webtoonId chapterNum segment ext =
     (case member env segment ''id'' of
        Inl e \<Rightarrow> Inl e
      | Inr i \<Rightarrow>
          (case to_string env i of
             Inl e \<Rightarrow> Inl e
           | Inr s \<Rightarrow>
               Inr (webtoonId @ ''/assets/chapters/ch'' @ num_to_string env chapterNum
                    @ ''/'' @ s @ ext)))"

text \<open>
  How the promise of one image check settles.  The check is an \<open>async\<close> function: an
  error before its first \<open>await\<close> (reading \<open>segment.id\<close> of \<open>null\<close>, converting the id)
  rejects the promise as it is created (\<open>Threw\<close>); an error after an \<open>await\<close> (a bucket
  call that rejects) rejects it later (\<open>Rejected\<close>); otherwise it resolves.
\<close>

datatype 'a settled = Threw string | Rejected string | Resolved 'a

text \<open>The image check of the first version: one \<open>head\<close> for the \<open>.jpg\<close>.\<close>

definition imageCheck_v1 ::
  "'n js_env \<Rightarrow> 'n bucket \<Rightarrow> string \<Rightarrow> 'n \<Rightarrow> 'n jv \<Rightarrow> 'n image_check settled \<times> bucket_op multiset" where
  "imageCheck_v1 env b webtoonId chapterNum segment =
     (case asset_path env webtoonId chapterNum segment ''.jpg'' of
        Inl e \<Rightarrow> (Threw e, {#})
      | Inr imgPath \<Rightarrow>
          (case bucket_head b imgPath of
             Throws msg \<Rightarrow> (Rejected msg, {#Head imgPath#})
           | Absent \<Rightarrow>
               (case member env segment ''id'' of
                  Inl e \<Rightarrow> (Rejected e, {#Head imgPath#})
                | Inr i \<Rightarrow>
                    (Resolved \<lparr>check_id = i, check_exists = False, check_path = imgPath\<rparr>,
                     {#Head imgPath#}))
           | Present imgObj \<Rightarrow>
               (case member env segment ''id'' of
                  Inl e \<Rightarrow> (Rejected e, {#Head imgPath#})
                | Inr i \<Rightarrow>
                    (Resolved \<lparr>check_id = i, check_exists = True, check_path = imgPath\<rparr>,
                     {#Head imgPath#}))))"

text \<open>
  The image check of the second version: a \<open>head\<close> for the \<open>.png\<close> first, and one for
  the \<open>.jpg\<close> only when the first resolves to \<open>null\<close>.  Both paths are built before the
  first \<open>await\<close>.
\<close>

definition imageCheck_v2 ::
  "'n js_env \<Rightarrow> 'n bucket \<Rightarrow> string \<Rightarrow> 'n \<Rightarrow> 'n jv \<Rightarrow> 'n image_check settled \<times> bucket_op multiset" where
  "imageCheck_v2 env b webtoonId chapterNum segment =
     (case asset_path env webtoonId chapterNum segment ''.png'' of
        Inl e \<Rightarrow> (Threw e, {#})
      | Inr pngPath \<Rightarrow>
          (case asset_path env webtoonId chapterNum segment ''.jpg'' of
             Inl e \<Rightarrow> (Threw e, {#})
           | Inr jpgPath \<Rightarrow>
               (case bucket_head b pngPath of
                  Throws msg \<Rightarrow> (Rejected msg, {#Head pngPath#})
                | Present pngObj \<Rightarrow>
                    (case member env segment ''id'' of
                       Inl e \<Rightarrow> (Rejected e, {#Head pngPath#})
                     | Inr i \<Rightarrow>
                         (Resolved \<lparr>check_id = i, check_exists = True, check_path = pngPath\<rparr>,
                          {#Head pngPath#}))
                | Absent \<Rightarrow>
                    (case bucket_head b jpgPath of
                       Throws msg \<Rightarrow> (Rejected msg, {#Head pngPath, Head jpgPath#})
                     | Absent \<Rightarrow>
                         (case member env segment ''id'' of
                            Inl e \<Rightarrow> (Rejected e, {#Head pngPath, Head jpgPath#})
                          | Inr i \<Rightarrow>
                              (Resolved \<lparr>check_id = i, check_exists = False,
                                         check_path = jpgPath\<rparr>,
                               {#Head pngPath, Head jpgPath#}))
                     | Present jpgObj \<Rightarrow>
                         (case member env segment ''id'' of
                            Inl e \<Rightarrow> (Rejected e, {#Head pngPath, Head jpgPath#})
                          | Inr i \<Rightarrow>
                              (Resolved \<lparr>check_id = i, check_exists = True,
                                         check_path = jpgPath\<rparr>,
                               {#Head pngPath, Head jpgPath#}))))))"

text \<open>
  \<open>Promise.all\<close> over the promises of the checks.  It resolves to the list of their
  values when all resolve, and rejects with the first rejection in time otherwise.  A
  promise that was rejected as it was created is seen before any that is rejected
  after an \<open>await\<close>, and the first of these in list order is seen first.  Among the
  promises rejected after an \<open>await\<close> the first in time depends on how long the bucket
  calls take: \<open>race\<close> tells, for the list of their messages, the position of the one
  that is first (a position beyond the list wraps around, so that every \<open>race\<close> names
  one of them).
\<close>

fun thrown :: "'a settled list \<Rightarrow> string list" where
  "thrown [] = []"
| "thrown (Threw e # rs) = e # thrown rs"
| "thrown (Rejected e # rs) = thrown rs"
| "thrown (Resolved x # rs) = thrown rs"

fun rejections :: "'a settled list \<Rightarrow> string list" where
  "rejections [] = []"
| "rejections (Threw e # rs) = rejections rs"
| "rejections (Rejected e # rs) = e # rejections rs"
| "rejections (Resolved x # rs) = rejections rs"

fun resolved :: "'a settled list \<Rightarrow> 'a list" where
  "resolved [] = []"
| "resolved (Threw e # rs) = resolved rs"
| "resolved (Rejected e # rs) = resolved rs"
| "resolved (Resolved x # rs) = x # resolved rs"

definition promise_all :: "(string list \<Rightarrow> nat) \<Rightarrow> 'a settled list \<Rightarrow> string + 'a list" where
  "promise_all race rs =
     (case thrown rs of
        e # es \<Rightarrow> Inl e
      | [] \<Rightarrow>
          (case rejections rs of
             [] \<Rightarrow> Inr (resolved rs)
           | e # es \<Rightarrow> Inl ((e # es) ! (race (e # es) mod length (e # es)))))"

text \<open>
  \<open>new Map(imageChecks.map(c => [c.id, c]))\<close> and \<open>imageMap.get(segment.id)\<close>.  A later
  entry replaces an earlier one with the same key, so a lookup finds the last check
  whose key is the same value.  Primitive keys are the same when they are equal; an
  array or an object is the same only as itself, and the parsed document shares no
  value between two segments, so such a key at position \<open>i\<close> matches position \<open>i\<close> only.
\<close>

definition is_reference :: "'n jv \<Rightarrow> bool" where
  "is_reference v = (case v of JArr xs \<Rightarrow> True | JObj ps \<Rightarrow> True | _ \<Rightarrow> False)"

definition same_value_zero :: "nat \<times> 'n jv \<Rightarrow> nat \<times> 'n jv \<Rightarrow> bool" where
  "same_value_zero a b = (if is_reference (snd a) then fst a = fst b else snd a = snd b)"

definition imageMap_get :: "'n image_check list \<Rightarrow> nat \<Rightarrow> 'n jv \<Rightarrow> 'n image_check option" where
  "imageMap_get imageChecks i key =
     (case filter (\<lambda>(j, c). same_value_zero (i, key) (j, check_id c)) (enumerate 0 imageChecks) of
        [] \<Rightarrow> None
      | hit # hits \<Rightarrow> Some (snd (last (hit # hits))))"

text \<open>Reading a list of properties of one value into the fields of an object literal.\<close>

fun copy_props :: "'n js_env \<Rightarrow> 'n jv \<Rightarrow> (string \<times> string) list \<Rightarrow> string + (string \<times> 'n jv) list" where
  "copy_props env v [] = Inr []"
| "copy_props env v ((field, key) # rest) =
     (case member env v key of
        Inl e \<Rightarrow> Inl e
      | Inr w \<Rightarrow>
          (case copy_props env v rest of Inl e \<Rightarrow> Inl e | Inr fs \<Rightarrow> Inr ((field, w) # fs)))"

definition segment_fields :: "(string \<times> string) list" where
  "segment_fields =
     [(''id'', ''id''), (''sequence'', ''sequence''), (''type'', ''segment_type''),
      (''description'', ''description''), (''characters'', ''characters''),
      (''dialogues'', ''dialogues''), (''narration'', ''narration''), (''sfx'', ''sfx''),
      (''shot_type'', ''shot_type''), (''mood'', ''mood''),
      (''scroll_pacing'', ''scroll_pacing''), (''height_hint'', ''height_hint'')]"

definition image_url :: "'n image_check option \<Rightarrow> 'n jv" where
  "image_url imgInfo =
     (case imgInfo of
        None \<Rightarrow> JNull
      | Some c \<Rightarrow> if check_exists c then JStr (''/api/image/'' @ check_path c) else JNull)"

definition has_image :: "'n image_check option \<Rightarrow> 'n jv" where
  "has_image imgInfo = JBool (case imgInfo of None \<Rightarrow> False | Some c \<Rightarrow> check_exists c)"

definition build_segment ::
  "'n js_env \<Rightarrow> 'n image_check list \<Rightarrow> nat \<times> 'n jv \<times> 'n jv \<Rightarrow> string + 'n jv" where
  "build_segment env imageChecks entry =
     (case entry of (i, segment, scene) \<Rightarrow>
        (case member env segment ''id'' of
           Inl e \<Rightarrow> Inl e
         | Inr key \<Rightarrow>
             (case copy_props env segment segment_fields of
                Inl e \<Rightarrow> Inl e
              | Inr fs \<Rightarrow>
                  (case copy_props env scene [(''scene_id'', ''id''), (''scene_title'', ''title'')] of
                     Inl e \<Rightarrow> Inl e
                   | Inr ss \<Rightarrow>
                       Inr (JObj (fs @ ss @
                              [(''image_url'', image_url (imageMap_get imageChecks i key)),
                               (''has_image'', has_image (imageMap_get imageChecks i key))]))))))"

text \<open>\<open>Array.prototype.map\<close> with a callback that may throw.\<close>

fun map_res :: "('a \<Rightarrow> string + 'b) \<Rightarrow> 'a list \<Rightarrow> string + 'b list" where
  "map_res f [] = Inr []"
| "map_res f (x # xs) =
     (case f x of
        Inl e \<Rightarrow> Inl e
      | Inr y \<Rightarrow> (case map_res f xs of Inl e \<Rightarrow> Inl e | Inr ys \<Rightarrow> Inr (y # ys)))"

text \<open>\<open>meta.chapters?.length || 0\<close>.\<close>

definition total_chapters :: "'n js_env \<Rightarrow> 'n jv \<Rightarrow> string + 'n jv" where
  "total_chapters env meta =
     (case member env meta ''chapters'' of
        Inl e \<Rightarrow> Inl e
      | Inr chapters \<Rightarrow>
          (case opt_member env chapters ''length'' of
             Inl e \<Rightarrow> Inl e
           | Inr n \<Rightarrow> Inr (or_else env n (JNum (num_of_nat env 0)))))"

definition chapter_payload ::
  "'n js_env \<Rightarrow> string \<Rightarrow> 'n \<Rightarrow> 'n jv \<Rightarrow> 'n jv \<Rightarrow> ('n jv \<times> 'n jv) list \<Rightarrow> 'n image_check list
     \<Rightarrow> string + 'n jv" where
  "chapter_payload env webtoonId chapterNum meta chapter sd imageChecks =
     (case map_res (build_segment env imageChecks) (enumerate 0 sd) of
        Inl e \<Rightarrow> Inl e
      | Inr segments \<Rightarrow>
          (case copy_props env meta [(''webtoon_title'', ''title'')] of
             Inl e \<Rightarrow> Inl e
           | Inr mt \<Rightarrow>
               (case copy_props env chapter
                       [(''chapter_title'', ''title''), (''chapter_summary'', ''summary'')] of
                  Inl e \<Rightarrow> Inl e
                | Inr ct \<Rightarrow>
                    (case total_chapters env meta of
                       Inl e \<Rightarrow> Inl e
                     | Inr n_chapters \<Rightarrow>
                         Inr (JObj ([(''webtoon_id'', JStr webtoonId)] @ mt @
                                [(''chapter_number'', JNum chapterNum)] @ ct @
                                [(''total_chapters'', n_chapters),
                                 (''segments'', JArr segments)]))))))"

text \<open>
  The body of the \<open>try\<close> block: a response, or the message of the error caught,
  together with the bucket operations issued.  The operations are a multiset: every
  check issues its first \<open>head\<close> at once, in order, but its second when the first has
  resolved, so their order is a matter of timing; when a check fails, the operations
  of all checks are listed, as if each ran to its end.
\<close>

definition chapter_try ::
  "('n js_env \<Rightarrow> 'n bucket \<Rightarrow> string \<Rightarrow> 'n \<Rightarrow> 'n jv \<Rightarrow> 'n image_check settled \<times> bucket_op multiset)
     \<Rightarrow> 'n js_env \<Rightarrow> (string list \<Rightarrow> nat) \<Rightarrow> 'n bucket \<Rightarrow> string \<Rightarrow> 'n
     \<Rightarrow> (string + 'n response) \<times> bucket_op multiset" where
  "chapter_try imageCheck env race b webtoonId chapterNum =
     (case bucket_get b (webtoonId @ ''/webtoon.json'') of
        Throws msg \<Rightarrow> (Inl msg, {#Get (webtoonId @ ''/webtoon.json'')#})
      | Absent \<Rightarrow>
          (Inr (json_response 404 (error_body ''Webtoon not found'') []),
           {#Get (webtoonId @ ''/webtoon.json'')#})
      | Present metaObj \<Rightarrow>
          (case obj_json metaObj of
             Inl msg \<Rightarrow> (Inl msg, {#Get (webtoonId @ ''/webtoon.json'')#})
           | Inr meta \<Rightarrow>
               (case chapter_of env meta chapterNum of
                  Inl msg \<Rightarrow> (Inl msg, {#Get (webtoonId @ ''/webtoon.json'')#})
                | Inr chapter \<Rightarrow>
                    if \<not> truthy env chapter
                    then (Inr (json_response 404 (error_body ''Chapter not found'') []),
                          {#Get (webtoonId @ ''/webtoon.json'')#})
                    else
                      (case segmentData env chapter of
                         Inl msg \<Rightarrow> (Inl msg, {#Get (webtoonId @ ''/webtoon.json'')#})
                       | Inr sd \<Rightarrow>
                           ((case promise_all race
                                   (map (\<lambda>(segment, scene).
                                      fst (imageCheck env b webtoonId chapterNum segment)) sd) of
                              Inl msg \<Rightarrow> Inl msg
                            | Inr imageChecks \<Rightarrow>
                                (case chapter_payload env webtoonId chapterNum meta chapter sd
                                        imageChecks of
                                   Inl msg \<Rightarrow> Inl msg
                                 | Inr payload \<Rightarrow>
                                     Inr (json_response 200 payload
                                            [(''Cache-Control'', ''public, max-age=300'')]))),
                            add_mset (Get (webtoonId @ ''/webtoon.json''))
                              (sum_list (map (\<lambda>(segment, scene).
                                 snd (imageCheck env b webtoonId chapterNum segment)) sd)))))))"

definition onRequest_chapter ::
  "('n js_env \<Rightarrow> 'n bucket \<Rightarrow> string \<Rightarrow> 'n \<Rightarrow> 'n jv \<Rightarrow> 'n image_check settled \<times> bucket_op multiset)
     \<Rightarrow> 'n js_env \<Rightarrow> (string list \<Rightarrow> nat) \<Rightarrow> 'n bucket \<Rightarrow> path_param
     \<Rightarrow> 'n response \<times> bucket_op multiset" where
  "onRequest_chapter imageCheck env race b p =
     (if length (pathParts p) < 2
      then (json_response 400 (error_body ''Invalid path'') [], {#})
      else
        (case fst (chapter_try imageCheck env race b (pathParts p ! 0)
                     (parseInt env (pathParts p ! 1))) of
           Inl msg \<Rightarrow> json_response 500 (error_body msg) []
         | Inr r \<Rightarrow> r,
         snd (chapter_try imageCheck env race b (pathParts p ! 0)
                (parseInt env (pathParts p ! 1)))))"

text \<open>The first version checks \<open>.jpg\<close> only; the second tries \<open>.png\<close>, then \<open>.jpg\<close>.\<close>

definition onRequest_chapter_v1 ::
  "'n js_env \<Rightarrow> (string list \<Rightarrow> nat) \<Rightarrow> 'n bucket \<Rightarrow> path_param
     \<Rightarrow> 'n response \<times> bucket_op multiset" where
  "onRequest_chapter_v1 = onRequest_chapter imageCheck_v1"

definition onRequest_chapter_v2 ::
  "'n js_env \<Rightarrow> (string list \<Rightarrow> nat) \<Rightarrow> 'n bucket \<Rightarrow> path_param
     \<Rightarrow> 'n response \<times> bucket_op multiset" where
  "onRequest_chapter_v2 = onRequest_chapter imageCheck_v2"

section \<open>Reading requests and responses\<close>

text \<open>The key of the metadata object, and the number the handler parses.\<close>

definition webtoon_key :: "path_param \<Rightarrow> string" where
  "webtoon_key p = pathParts p ! 0 @ ''/webtoon.json''"

definition chapterNum_of :: "'n js_env \<Rightarrow> path_param \<Rightarrow> 'n" where
  "chapterNum_of env p = parseInt env (pathParts p ! 1)"

text \<open>
  The position in a chapter array of length \<open>len\<close> that the 1-based chapter number
  denotes, if it denotes one.
\<close>

definition chapter_position :: "'n js_env \<Rightarrow> nat \<Rightarrow> 'n \<Rightarrow> nat option" where
  "chapter_position env len chapterNum =
     index_of_key len (num_to_string env (num_minus_one env chapterNum))"

text \<open>
  The segments the handler collects for a request (none when it answers before
  collecting them).
\<close>

definition request_segments :: "'n js_env \<Rightarrow> 'n bucket \<Rightarrow> path_param \<Rightarrow> 'n jv list" where
  "request_segments env b p =
     (case bucket_get b (webtoon_key p) of
        Present metaObj \<Rightarrow>
          (case obj_json metaObj of
             Inr meta \<Rightarrow>
               (case chapter_of env meta (chapterNum_of env p) of
                  Inr chapter \<Rightarrow>
                    if truthy env chapter
                    then (case segmentData env chapter of Inr sd \<Rightarrow> map fst sd | Inl e \<Rightarrow> [])
                    else []
                | Inl e \<Rightarrow> [])
           | Inl e \<Rightarrow> [])
      | _ \<Rightarrow> [])"

text \<open>The path of a segment's image with a given extension, as both versions build it.\<close>

definition segment_image_path :: "'n js_env \<Rightarrow> path_param \<Rightarrow> 'n jv \<Rightarrow> string \<Rightarrow> string + string" where
  "segment_image_path env p segment ext =
     asset_path env (pathParts p ! 0) (chapterNum_of env p) segment ext"

text \<open>The segments of a 200 response, and a field of an object in it.\<close>

definition response_segments :: "'n response \<Rightarrow> 'n jv list" where
  "response_segments r =
     (case body r of
        Json (JObj fs) \<Rightarrow> (case map_of fs ''segments'' of Some (JArr segs) \<Rightarrow> segs | _ \<Rightarrow> [])
      | _ \<Rightarrow> [])"

definition field :: "'n jv \<Rightarrow> string \<Rightarrow> 'n jv option" where
  "field v name = (case v of JObj fs \<Rightarrow> map_of fs name | _ \<Rightarrow> None)"

section \<open>What a well-formed chapter is answered with\<close>

text \<open>
  The metadata the generator writes has objects for chapters, scenes and segments, and
  strings for segment ids.  For such a chapter the payload of the 200 response is
  written out here from the metadata alone, to be compared with what the handlers
  compute.  \<open>own v name\<close> is the own property of an object (\<open>undefined\<close> when there is
  none), \<open>items v\<close> the elements of an array.
\<close>

definition own :: "'n jv \<Rightarrow> string \<Rightarrow> 'n jv" where
  "own v name =
     (case v of
        JObj ps \<Rightarrow> (case map_of ps name of None \<Rightarrow> JUndef | Some w \<Rightarrow> w)
      | _ \<Rightarrow> JUndef)"

definition items :: "'n jv \<Rightarrow> 'n jv list" where
  "items v = (case v of JArr xs \<Rightarrow> xs | _ \<Rightarrow> [])"

definition is_object :: "'n jv \<Rightarrow> bool" where
  "is_object v = (case v of JObj ps \<Rightarrow> True | _ \<Rightarrow> False)"

definition absent_or_objects :: "'n jv \<Rightarrow> bool" where
  "absent_or_objects v =
     (case v of JUndef \<Rightarrow> True | JArr xs \<Rightarrow> list_all is_object xs | _ \<Rightarrow> False)"

definition has_string_id :: "'n jv \<Rightarrow> bool" where
  "has_string_id segment = (case own segment ''id'' of JStr s \<Rightarrow> True | _ \<Rightarrow> False)"

definition segment_id :: "'n jv \<Rightarrow> string" where
  "segment_id segment = (case own segment ''id'' of JStr s \<Rightarrow> s | _ \<Rightarrow> [])"

definition well_formed_chapter :: "'n jv \<Rightarrow> bool" where
  "well_formed_chapter chapter =
     (is_object chapter
      \<and> absent_or_objects (own chapter ''scenes'')
      \<and> list_all (\<lambda>scene. absent_or_objects (own scene ''segments'')
                          \<and> list_all has_string_id (items (own scene ''segments'')))
            (items (own chapter ''scenes'')))"

text \<open>The (segment, scene) pairs of a chapter in reading order.\<close>

definition chapter_pairs :: "'n jv \<Rightarrow> ('n jv \<times> 'n jv) list" where
  "chapter_pairs chapter =
     concat (map (\<lambda>scene. map (\<lambda>segment. (segment, scene)) (items (own scene ''segments'')))
               (items (own chapter ''scenes'')))"

definition image_path :: "'n js_env \<Rightarrow> string \<Rightarrow> 'n \<Rightarrow> 'n jv \<Rightarrow> string \<Rightarrow> string" where
  "image_path env webtoonId chapterNum segment ext =
     webtoonId @ ''/assets/chapters/ch'' @ num_to_string env chapterNum @ ''/''
       @ segment_id segment @ ext"

text \<open>
  What \<open>head\<close> says of a path: an object is stored there, or the call rejects (or
  neither: no object is stored).
\<close>

definition stored :: "'n bucket \<Rightarrow> string \<Rightarrow> bool" where
  "stored b path = (case bucket_head b path of Present obj \<Rightarrow> True | _ \<Rightarrow> False)"

definition rejects :: "'n bucket \<Rightarrow> string \<Rightarrow> bool" where
  "rejects b path = (case bucket_head b path of Throws msg \<Rightarrow> True | _ \<Rightarrow> False)"

text \<open>
  The image a version reports for a segment: the first version the \<open>.jpg\<close> if it is
  stored; the second the \<open>.png\<close> if it is stored, else the \<open>.jpg\<close> if it is stored.
\<close>

definition found_v1 :: "'n js_env \<Rightarrow> 'n bucket \<Rightarrow> string \<Rightarrow> 'n \<Rightarrow> 'n jv \<Rightarrow> string option" where
  "found_v1 env b webtoonId chapterNum segment =
     (if stored b (image_path env webtoonId chapterNum segment ''.jpg'')
      then Some (image_path env webtoonId chapterNum segment ''.jpg'')
      else None)"

definition found_v2 :: "'n js_env \<Rightarrow> 'n bucket \<Rightarrow> string \<Rightarrow> 'n \<Rightarrow> 'n jv \<Rightarrow> string option" where
  "found_v2 env b webtoonId chapterNum segment =
     (if stored b (image_path env webtoonId chapterNum segment ''.png'')
      then Some (image_path env webtoonId chapterNum segment ''.png'')
      else if stored b (image_path env webtoonId chapterNum segment ''.jpg'')
      then Some (image_path env webtoonId chapterNum segment ''.jpg'')
      else None)"

text \<open>No \<open>head\<close> that a version issues for the chapter's segments rejects.\<close>

definition heads_settle_v1 :: "'n js_env \<Rightarrow> 'n bucket \<Rightarrow> string \<Rightarrow> 'n \<Rightarrow> 'n jv \<Rightarrow> bool" where
  "heads_settle_v1 env b webtoonId chapterNum chapter =
     list_all (\<lambda>(segment, scene).
                 \<not> rejects b (image_path env webtoonId chapterNum segment ''.jpg''))
       (chapter_pairs chapter)"

definition heads_settle_v2 :: "'n js_env \<Rightarrow> 'n bucket \<Rightarrow> string \<Rightarrow> 'n \<Rightarrow> 'n jv \<Rightarrow> bool" where
  "heads_settle_v2 env b webtoonId chapterNum chapter =
     list_all (\<lambda>(segment, scene).
                 \<not> rejects b (image_path env webtoonId chapterNum segment ''.png'')
                 \<and> (stored b (image_path env webtoonId chapterNum segment ''.png'')
                      \<or> \<not> rejects b (image_path env webtoonId chapterNum segment ''.jpg'')))
       (chapter_pairs chapter)"

text \<open>The segment of the response, and the payload.\<close>

definition expected_segment :: "('n jv \<Rightarrow> string option) \<Rightarrow> 'n jv \<times> 'n jv \<Rightarrow> 'n jv" where
  "expected_segment found pair =
     (case pair of (segment, scene) \<Rightarrow>
        JObj [(''id'', own segment ''id''),
              (''sequence'', own segment ''sequence''),
              (''type'', own segment ''segment_type''),
              (''description'', own segment ''description''),
              (''characters'', own segment ''characters''),
              (''dialogues'', own segment ''dialogues''),
              (''narration'', own segment ''narration''),
              (''sfx'', own segment ''sfx''),
              (''shot_type'', own segment ''shot_type''),
              (''mood'', own segment ''mood''),
              (''scroll_pacing'', own segment ''scroll_pacing''),
              (''height_hint'', own segment ''height_hint''),
              (''scene_id'', own scene ''id''),
              (''scene_title'', own scene ''title''),
              (''image_url'',
               (case found segment of
                  None \<Rightarrow> JNull
                | Some path \<Rightarrow> JStr (''/api/image/'' @ path))),
              (''has_image'', JBool (found segment \<noteq> None))])"

definition expected_payload ::
  "'n js_env \<Rightarrow> string \<Rightarrow> 'n \<Rightarrow> 'n jv \<Rightarrow> 'n jv list \<Rightarrow> 'n jv \<Rightarrow> ('n jv \<Rightarrow> string option) \<Rightarrow> 'n jv" where
  "expected_payload env webtoonId chapterNum meta chapters chapter found =
     JObj [(''webtoon_id'', JStr webtoonId),
           (''webtoon_title'', own meta ''title''),
           (''chapter_number'', JNum chapterNum),
           (''chapter_title'', own chapter ''title''),
           (''chapter_summary'', own chapter ''summary''),
           (''total_chapters'',
            (if num_truthy env (num_of_nat env (length chapters))
             then JNum (num_of_nat env (length chapters))
             else JNum (num_of_nat env 0))),
           (''segments'', JArr (map (expected_segment found) (chapter_pairs chapter)))]"

section \<open>A concrete instance for worked examples\<close>

text \<open>
  An instance of the builtins in which the numbers are the integers and \<open>NaN\<close>
  (\<open>None\<close>).  Its \<open>parseInt\<close> reads an optional sign and the leading decimal digits
  of its argument, and gives \<open>NaN\<close> when there is no digit.  The examples below run
  the handlers in this instance; the theorems hold for every instance.
\<close>

definition is_digit :: "char \<Rightarrow> bool" where
  "is_digit c = ((48::nat) \<le> of_char c \<and> of_char c \<le> (57::nat))"

definition digits_value :: "string \<Rightarrow> nat" where
  "digits_value ds = foldl (\<lambda>acc c. 10 * acc + (of_char c - (48::nat))) 0 ds"

definition parse_digits :: "string \<Rightarrow> int option" where
  "parse_digits s =
     (if takeWhile is_digit s = [] then None
      else Some (int (digits_value (takeWhile is_digit s))))"

definition int_parseInt :: "string \<Rightarrow> int option" where
  "int_parseInt s =
     (case s of
        [] \<Rightarrow> None
      | c # cs \<Rightarrow>
          if c = CHR ''-'' then map_option uminus (parse_digits cs)
          else if c = CHR ''+'' then parse_digits cs
          else parse_digits s)"

definition int_to_string :: "int option \<Rightarrow> string" where
  "int_to_string n =
     (case n of
        None \<Rightarrow> ''NaN''
      | Some i \<Rightarrow> if i < 0 then ''-'' @ decimal (nat (- i)) else decimal (nat i))"

definition int_env :: "int option js_env" where
  "int_env =
     \<lparr>parseInt = int_parseInt,
      num_minus_one = map_option (\<lambda>i. i - 1),
      num_to_string = int_to_string,
      num_truthy = (\<lambda>n. n \<noteq> None \<and> n \<noteq> Some 0),
      num_of_nat = (\<lambda>k. Some (int k)),
      type_error = (\<lambda>v what. ''Cannot read '' @ what)\<rparr>"

text \<open>
  A webtoon \<open>w1\<close> with one chapter of one scene and two segments, a webtoon \<open>w3\<close>
  whose metadata has no chapters, and a webtoon \<open>w4\<close> whose only chapter is \<open>null\<close>.
  Bucket \<open>jpg_bucket\<close> stores the three and the \<open>.jpg\<close> of segment \<open>p1\<close> only; bucket
  \<open>png_bucket\<close> stores \<open>w1\<close> and the \<open>.png\<close> of \<open>p1\<close> as well.  In \<open>failing_bucket\<close>
  every \<open>get\<close> rejects; in \<open>slow_bucket\<close> the metadata of \<open>w1\<close> is read, no \<open>.png\<close> is
  stored, and the \<open>head\<close> of each \<open>.jpg\<close> rejects with a message of its own.
\<close>

definition demo_chapter :: "int option jv" where
  "demo_chapter =
     JObj [(''title'', JStr ''One''),
           (''summary'', JStr ''Mina sees a ghost''),
           (''scenes'',
            JArr [JObj [(''id'', JStr ''s1''),
                        (''title'', JStr ''School''),
                        (''segments'',
                         JArr [JObj [(''id'', JStr ''p1''), (''sequence'', JNum (Some 1))],
                               JObj [(''id'', JStr ''p2''), (''sequence'', JNum (Some 2))]])]])]"

definition demo_meta :: "int option jv" where
  "demo_meta = JObj [(''title'', JStr ''Ghost Girl''), (''chapters'', JArr [demo_chapter])]"

definition demo_object :: "int option r2_object" where
  "demo_object = \<lparr>obj_body = ''bytes'', obj_json = Inr demo_meta\<rparr>"

definition bare_object :: "int option r2_object" where
  "bare_object = \<lparr>obj_body = ''bytes'', obj_json = Inr (JObj [(''title'', JStr ''Bare'')])\<rparr>"

definition gap_object :: "int option r2_object" where
  "gap_object =
     \<lparr>obj_body = ''bytes'',
      obj_json = Inr (JObj [(''title'', JStr ''Gap''), (''chapters'', JArr [JNull])])\<rparr>"

definition jpg_bucket :: "int option bucket" where
  "jpg_bucket =
     \<lparr>bucket_get = (\<lambda>k. if k = ''w1/webtoon.json'' then Present demo_object
                           else if k = ''w3/webtoon.json'' then Present bare_object
                           else if k = ''w4/webtoon.json'' then Present gap_object
                           else Absent),
      bucket_head = (\<lambda>k. if k = ''w1/assets/chapters/ch1/p1.jpg''
                            then Present demo_object else Absent)\<rparr>"

definition png_bucket :: "int option bucket" where
  "png_bucket =
     \<lparr>bucket_get = (\<lambda>k. if k = ''w1/webtoon.json'' then Present demo_object else Absent),
      bucket_head = (\<lambda>k. if k = ''w1/assets/chapters/ch1/p1.jpg''
                               \<or> k = ''w1/assets/chapters/ch1/p1.png''
                            then Present demo_object else Absent)\<rparr>"

definition failing_bucket :: "int option bucket" where
  "failing_bucket =
     \<lparr>bucket_get = (\<lambda>k. Throws ''R2 unavailable''), bucket_head = (\<lambda>k. Absent)\<rparr>"

definition slow_bucket :: "int option bucket" where
  "slow_bucket =
     \<lparr>bucket_get = (\<lambda>k. if k = ''w1/webtoon.json'' then Present demo_object else Absent),
      bucket_head = (\<lambda>k. if k = ''w1/assets/chapters/ch1/p1.jpg'' then Throws ''timeout p1''
                            else if k = ''w1/assets/chapters/ch1/p2.jpg'' then Throws ''timeout p2''
                            else Absent)\<rparr>"

text \<open>Two timings: the first of the failing checks fails first, or the last of them.\<close>

definition first_listed :: "string list \<Rightarrow> nat" where
  "first_listed es = 0"

definition last_listed :: "string list \<Rightarrow> nat" where
  "last_listed es = length es - 1"

text \<open>A bucket for the image handler: it stores \<open>covers/a.webp\<close> and nothing else.\<close>

definition demo_image_bucket :: "unit bucket" where
  "demo_image_bucket =
     \<lparr>bucket_get = (\<lambda>k. if k = ''covers/a.webp''
                           then Present \<lparr>obj_body = ''RIFF'', obj_json = Inl ''not JSON''\<rparr>
                           else Absent),
      bucket_head = (\<lambda>k. Absent)\<rparr>"

section \<open>The generation result cache: index and eviction\<close>

text \<open>
  The specification describes a cache of generation results: an in-memory index with
  least-recently-used eviction over a persistence layer of payload files and metadata
  sidecars.  The cache's implementation is not among the source files (the README notes
  only that responses are cached and that the cache persists), so this part is a model
  of the specification's sections 3, 4.2 and 4.3.
\<close>

type_synonym cache_key = string

text \<open>
  Modelled from the spec: the content kinds of a \<open>CacheEntry\<close> (text, structured,
  image); the cache module that declares them is missing from the sources.
\<close>

datatype content_kind = TextKind | StructuredKind | ImageKind

text \<open>
  Modelled from the spec: the entry metadata the \<open>CacheIndex\<close> maps a key to, and that
  a sidecar records: size, content kind and the two timestamps (section 3; the
  cache module is missing from the sources).  Time is the cache's own operation
  counter, so that recency is the order of the operations.
\<close>

record meta =
  size_bytes :: nat
  content_kind :: content_kind
  created_at :: nat
  last_accessed_at :: nat

text \<open>
  Modelled from the spec: a \<open>CacheEntry\<close> as \<open>lookup\<close> returns it, a copy of the
  payload with its metadata (section 3; missing from the sources).
\<close>

record cache_entry =
  entry_key :: cache_key
  entry_payload :: string
  entry_meta :: meta

text \<open>
  Modelled from the spec: the capacity options \<open>max_entries\<close> and \<open>max_bytes\<close>
  (sections 4.2 and 6; the configuration code is missing from the sources).  Either
  may be unset.
\<close>

record cache_config =
  max_entries :: "nat option"
  max_bytes :: "nat option"

text \<open>
  Modelled from the spec: what the persistence layer holds for a key, a payload file
  and a sidecar, either of which may be missing (section 4.3; the layer's code is
  missing from the sources).  The files are valid when both are there and the size the
  sidecar records is the payload's.
\<close>

record stored =
  payload_file :: "string option"
  sidecar_file :: "meta option"

definition valid_files :: "stored \<Rightarrow> bool" where
  "valid_files f =
     (case payload_file f of
        None \<Rightarrow> False
      | Some bytes \<Rightarrow>
          (case sidecar_file f of None \<Rightarrow> False | Some m \<Rightarrow> size_bytes m = length bytes))"

text \<open>
  Modelled from the spec: the state of the cache, its configuration, the index from
  keys to metadata, the files under the cache root, and the operation counter that
  stamps entries (sections 3 and 4; missing from the sources).
\<close>

record cache =
  config :: cache_config
  index :: "(cache_key \<times> meta) list"
  disk :: "(cache_key \<times> stored) list"
  clock :: nat

text \<open>
  Modelled from the spec: \<open>write\<close> (here \<open>write_entry\<close>), \<open>read\<close> and \<open>remove\<close> of the
  \<open>PersistenceLayer\<close> contract (section 4.3; missing from the sources).  A write puts
  payload and sidecar in place together; a read gives the payload of valid files only.
\<close>

definition write_entry :: "cache_key \<Rightarrow> string \<Rightarrow> meta \<Rightarrow> (cache_key \<times> stored) list \<Rightarrow> (cache_key \<times> stored) list" where
  "write_entry k bytes m d = AList.update k \<lparr>payload_file = Some bytes, sidecar_file = Some m\<rparr> d"

definition read :: "cache_key \<Rightarrow> (cache_key \<times> stored) list \<Rightarrow> string option" where
  "read k d =
     (case map_of d k of
        None \<Rightarrow> None
      | Some f \<Rightarrow> if valid_files f then payload_file f else None)"

definition remove :: "cache_key \<Rightarrow> (cache_key \<times> stored) list \<Rightarrow> (cache_key \<times> stored) list" where
  "remove k d = AList.delete k d"

text \<open>
  Modelled from the spec: capacity by entry count and/or total bytes, whichever
  triggers first (section 4.2; missing from the sources).
\<close>

definition total_bytes :: "(cache_key \<times> meta) list \<Rightarrow> nat" where
  "total_bytes idx = sum_list (map (\<lambda>e. size_bytes (snd e)) idx)"

definition over_capacity :: "cache_config \<Rightarrow> (cache_key \<times> meta) list \<Rightarrow> bool" where
  "over_capacity cfg idx =
     ((case max_entries cfg of None \<Rightarrow> False | Some n \<Rightarrow> n < length idx)
      \<or> (case max_bytes cfg of None \<Rightarrow> False | Some b \<Rightarrow> b < total_bytes idx))"

text \<open>
  Modelled from the spec: the eviction policy, least recently used first, ties broken
  by earliest insertion (section 4.2; missing from the sources).  \<open>older m m'\<close> says
  that \<open>m\<close> goes before \<open>m'\<close>; \<open>lru\<close> picks the entry that goes before all others.
\<close>

definition older :: "meta \<Rightarrow> meta \<Rightarrow> bool" where
  "older m m' =
     (last_accessed_at m < last_accessed_at m'
      \<or> (last_accessed_at m = last_accessed_at m' \<and> created_at m \<le> created_at m'))"

fun lru :: "(cache_key \<times> meta) list \<Rightarrow> (cache_key \<times> meta) option" where
  "lru [] = None"
| "lru (e # es) =
     (case lru es of
        None \<Rightarrow> Some e
      | Some e' \<Rightarrow> if older (snd e) (snd e') then Some e else Some e')"

lemma lru_in_index: "lru idx = Some e \<Longrightarrow> e \<in> set idx"
  by (induction idx arbitrary: e) (auto split: option.splits if_splits)

lemma length_delete_member:
  "(k, v) \<in> set al \<Longrightarrow> length (AList.delete k al) < length al"
  by (induction al) (auto simp: less_Suc_eq_le AList.length_delete_le)

text \<open>
  Modelled from the spec: \<open>evict_if_over_capacity\<close> of the \<open>CacheIndex\<close> contract
  (section 4.2; missing from the sources).  While the index is over capacity the least
  recently used entry leaves the index and the persistence layer removes its files;
  the evicted keys are returned in the order of their eviction.
\<close>

function evict_if_over_capacity :: "cache \<Rightarrow> cache_key list \<times> cache" where
  "evict_if_over_capacity s =
     (if over_capacity (config s) (index s)
      then (case lru (index s) of
              None \<Rightarrow> ([], s)
            | Some e \<Rightarrow>
                (fst e # fst (evict_if_over_capacity
                                (s\<lparr>index := AList.delete (fst e) (index s),
                                   disk := remove (fst e) (disk s)\<rparr>)),
                 snd (evict_if_over_capacity
                        (s\<lparr>index := AList.delete (fst e) (index s),
                           disk := remove (fst e) (disk s)\<rparr>))))
      else ([], s))"
  by pat_completeness auto
termination
proof (relation "measure (\<lambda>s. length (index s))")
  show "wf (measure (\<lambda>s. length (index s)))" by simp
next
  fix s :: cache and e
  assume "lru (index s) = Some e"
  then have "(fst e, snd e) \<in> set (index s)" by (simp add: lru_in_index)
  then have "length (AList.delete (fst e) (index s)) < length (index s)"
    by (rule length_delete_member)
  then show "(s\<lparr>index := AList.delete (fst e) (index s), disk := remove (fst e) (disk s)\<rparr>, s)
               \<in> measure (\<lambda>s. length (index s))"
    by simp
next
  fix s :: cache and e
  assume "lru (index s) = Some e"
  then have "(fst e, snd e) \<in> set (index s)" by (simp add: lru_in_index)
  then have "length (AList.delete (fst e) (index s)) < length (index s)"
    by (rule length_delete_member)
  then show "(s\<lparr>index := AList.delete (fst e) (index s), disk := remove (fst e) (disk s)\<rparr>, s)
               \<in> measure (\<lambda>s. length (index s))"
    by simp
qed

text \<open>
  Modelled from the spec: \<open>touch\<close>, \<open>lookup\<close> and \<open>insert\<close> of the \<open>CacheIndex\<close> contract
  (section 4.2; missing from the sources).  \<open>touch\<close> and a successful \<open>lookup\<close> promote
  the entry to most recently used; a lookup whose payload cannot be read is a miss.
  \<open>insert\<close> (here \<open>insert_entry\<close>) adds or replaces the entry, stamps it as used
  now (\<open>add_entry\<close>, which keeps the creation time of an entry it replaces), and then
  evicts until capacity is restored.
\<close>

definition touch :: "cache_key \<Rightarrow> cache \<Rightarrow> cache" where
  "touch k s =
     (case map_of (index s) k of
        None \<Rightarrow> s
      | Some m \<Rightarrow>
          s\<lparr>index := AList.update k (m\<lparr>last_accessed_at := clock s\<rparr>) (index s),
            clock := Suc (clock s)\<rparr>)"

definition lookup :: "cache_key \<Rightarrow> cache \<Rightarrow> cache_entry option \<times> cache" where
  "lookup k s =
     (case map_of (index s) k of
        None \<Rightarrow> (None, s)
      | Some m \<Rightarrow>
          (case read k (disk s) of
             None \<Rightarrow> (None, s)
           | Some bytes \<Rightarrow>
               (Some \<lparr>entry_key = k, entry_payload = bytes,
                      entry_meta = m\<lparr>last_accessed_at := clock s\<rparr>\<rparr>,
                touch k s)))"

definition add_entry :: "cache_key \<Rightarrow> meta \<Rightarrow> cache \<Rightarrow> cache" where
  "add_entry k m s =
     s\<lparr>index := AList.update k
                   (m\<lparr>created_at := (case map_of (index s) k of
                                        None \<Rightarrow> clock s
                                      | Some old \<Rightarrow> created_at old),
                      last_accessed_at := clock s\<rparr>)
                   (index s),
       clock := Suc (clock s)\<rparr>"

definition insert_entry :: "cache_key \<Rightarrow> meta \<Rightarrow> cache \<Rightarrow> cache" where
  "insert_entry k m s = snd (evict_if_over_capacity (add_entry k m s))"

text \<open>
  Modelled from the spec: \<open>put\<close> and \<open>get\<close> as the testable properties use them
  (section 8; missing from the sources).  \<open>put\<close> is the success path of the manager:
  persist the entry, then insert it into the index; \<open>get\<close> is a lookup.
\<close>

definition put :: "cache_key \<Rightarrow> string \<Rightarrow> content_kind \<Rightarrow> cache \<Rightarrow> cache" where
  "put k bytes kind s =
     insert_entry k
       \<lparr>size_bytes = length bytes, content_kind = kind,
        created_at = clock s, last_accessed_at = clock s\<rparr>
       (s\<lparr>disk := write_entry k bytes
                     \<lparr>size_bytes = length bytes, content_kind = kind,
                      created_at = clock s, last_accessed_at = clock s\<rparr>
                     (disk s)\<rparr>)"

definition get :: "cache_key \<Rightarrow> cache \<Rightarrow> cache_entry option \<times> cache" where
  "get k s = lookup k s"

text \<open>
  Modelled from the spec: the keys that the eviction triggered by a \<open>put\<close> returns
  (section 4.2, \<open>evict_if_over_capacity() -> [evicted keys]\<close>; missing from the
  sources).
\<close>

definition put_evicted :: "cache_key \<Rightarrow> string \<Rightarrow> content_kind \<Rightarrow> cache \<Rightarrow> cache_key list" where
  "put_evicted k bytes kind s =
     fst (evict_if_over_capacity
            (add_entry k
               \<lparr>size_bytes = length bytes, content_kind = kind,
                created_at = clock s, last_accessed_at = clock s\<rparr>
               (s\<lparr>disk := write_entry k bytes
                             \<lparr>size_bytes = length bytes, content_kind = kind,
                              created_at = clock s, last_accessed_at = clock s\<rparr>
                             (disk s)\<rparr>)))"

text \<open>
  Modelled from the spec: an empty cache with a given capacity (section 6), and the
  capacities of the two scenarios of section 8: two entries, and 100 bytes.
\<close>

definition empty_cache :: "cache_config \<Rightarrow> cache" where
  "empty_cache cfg = \<lparr>config = cfg, index = [], disk = [], clock = 0\<rparr>"

definition two_entries :: cache_config where
  "two_entries = \<lparr>max_entries = Some 2, max_bytes = None\<rparr>"

definition hundred_bytes :: cache_config where
  "hundred_bytes = \<lparr>max_entries = None, max_bytes = Some 100\<rparr>"

text \<open>
  Modelled from the spec: the states of the two scenarios of section 8.  In the first,
  after \<open>put(A); put(B); get(A)\<close> with capacity two; in the second, after the insert
  of the 60-byte entry A with a byte capacity of 100.
\<close>

definition after_put_put_get :: cache where
  "after_put_put_get =
     snd (get ''A'' (put ''B'' ''b'' TextKind (put ''A'' ''a'' TextKind (empty_cache two_entries))))"

text \<open>
  Modelled from the spec: an index over its capacity of two in which \<open>X\<close> and \<open>Y\<close> were
  last used at the same time and \<open>Y\<close> was inserted first (section 4.2, ties).
\<close>

definition tied_index :: cache where
  "tied_index =
     \<lparr>config = two_entries,
      index = [(''X'', \<lparr>size_bytes = 1, content_kind = TextKind, created_at = 5,
                       last_accessed_at = 7\<rparr>),
               (''Y'', \<lparr>size_bytes = 1, content_kind = TextKind, created_at = 3,
                       last_accessed_at = 7\<rparr>),
               (''Z'', \<lparr>size_bytes = 1, content_kind = TextKind, created_at = 8,
                       last_accessed_at = 9\<rparr>)],
      disk = [],
      clock = 10\<rparr>"

definition after_first_insert :: cache where
  "after_first_insert = put ''A'' (replicate 60 CHR ''a'') ImageKind (empty_cache hundred_bytes)"

text \<open>
  Modelled from the spec: the invariant of the \<open>CacheIndex\<close> (section 3): no key
  appears twice and a key is in the index exactly when valid files for it exist on the
  persistence layer (\<open>consistent\<close>), and the index is within capacity.
\<close>

definition consistent :: "cache \<Rightarrow> bool" where
  "consistent s =
     (distinct (map fst (index s))
      \<and> (\<forall>k. k \<in> fst ` set (index s) \<longleftrightarrow> (\<exists>f. map_of (disk s) k = Some f \<and> valid_files f)))"

definition index_invariant :: "cache \<Rightarrow> bool" where
  "index_invariant s = (consistent s \<and> \<not> over_capacity (config s) (index s))"

section \<open>Properties of the image handler\<close>

lemma endsWith_same_length:
  "endsWith s t \<Longrightarrow> endsWith s u \<Longrightarrow> length t = length u \<Longrightarrow> t = u"
  by (auto simp: endsWith_def)

lemma endsWith_last:
  "endsWith s t \<Longrightarrow> t \<noteq> [] \<Longrightarrow> last s = last t"
  by (metis endsWith_def last_appendR append_take_drop_id)

lemma contentType_png: "contentType path = ''image/png'' \<longleftrightarrow> endsWith path ''.png''"
  by (simp add: contentType_def)

lemma contentType_webp: "contentType path = ''image/webp'' \<longleftrightarrow> endsWith path ''.webp''"
proof -
  have "\<not> (endsWith path ''.png'' \<and> endsWith path ''.webp'')"
    using endsWith_last [of path "''.png''"] endsWith_last [of path "''.webp''"] by auto
  then show ?thesis by (auto simp: contentType_def)
qed

lemma contentType_gif: "contentType path = ''image/gif'' \<longleftrightarrow> endsWith path ''.gif''"
proof -
  have "\<not> (endsWith path ''.png'' \<and> endsWith path ''.gif'')"
    using endsWith_same_length [of path "''.png''" "''.gif''"] by auto
  moreover have "\<not> (endsWith path ''.webp'' \<and> endsWith path ''.gif'')"
    using endsWith_last [of path "''.webp''"] endsWith_last [of path "''.gif''"] by auto
  ultimately show ?thesis by (auto simp: contentType_def)
qed

lemma contentType_jpeg:
  "contentType path = ''image/jpeg'' \<longleftrightarrow>
     \<not> endsWith path ''.png'' \<and> \<not> endsWith path ''.webp'' \<and> \<not> endsWith path ''.gif''"
  by (simp add: contentType_def)

text \<open>
  Claim C9.  When the bucket holds an object under the joined path, the image handler
  answers 200 with the object's body, and its \<open>Content-Type\<close> is \<open>image/png\<close> exactly
  when the path ends with \<open>.png\<close>, \<open>image/webp\<close> exactly when it ends with \<open>.webp\<close>,
  \<open>image/gif\<close> exactly when it ends with \<open>.gif\<close>, and \<open>image/jpeg\<close> exactly in every
  other case.  When the bucket holds no object there, the answer has status 404.
\<close>

theorem image_content_type:
  "(bucket_get b (imagePath p) = Present object \<longrightarrow>
      status (onRequest_image b p) = 200
    \<and> body (onRequest_image b p) = Stream (obj_body object)
    \<and> (header (onRequest_image b p) ''Content-Type'' = Some ''image/png''
         \<longleftrightarrow> endsWith (imagePath p) ''.png'')
    \<and> (header (onRequest_image b p) ''Content-Type'' = Some ''image/webp''
         \<longleftrightarrow> endsWith (imagePath p) ''.webp'')
    \<and> (header (onRequest_image b p) ''Content-Type'' = Some ''image/gif''
         \<longleftrightarrow> endsWith (imagePath p) ''.gif'')
    \<and> (header (onRequest_image b p) ''Content-Type'' = Some ''image/jpeg''
         \<longleftrightarrow> \<not> endsWith (imagePath p) ''.png'' \<and> \<not> endsWith (imagePath p) ''.webp''
              \<and> \<not> endsWith (imagePath p) ''.gif''))
   \<and> (bucket_get b (imagePath p) = Absent \<longrightarrow> status (onRequest_image b p) = 404)"
  by (simp add: onRequest_image_def header_def contentType_png contentType_webp
                contentType_gif contentType_jpeg)

text \<open>
  The theorem at two requests to \<open>demo_image_bucket\<close>: \<open>covers/a.webp\<close> is stored and
  is served as \<open>image/webp\<close>; \<open>notes\<close> (no extension) is not stored and gives 404.
\<close>

theorem image_content_type_witness:
  "bucket_get demo_image_bucket (imagePath (PathArray [''covers'', ''a.webp'']))
     = Present \<lparr>obj_body = ''RIFF'', obj_json = Inl ''not JSON''\<rparr>
   \<and> header (onRequest_image demo_image_bucket (PathArray [''covers'', ''a.webp'']))
        ''Content-Type'' = Some ''image/webp''
   \<and> bucket_get demo_image_bucket (imagePath (PathString ''notes'')) = Absent
   \<and> status (onRequest_image demo_image_bucket (PathString ''notes'')) = 404"
proof -
  have h1: "bucket_get demo_image_bucket (imagePath (PathArray [''covers'', ''a.webp'']))
              = Present \<lparr>obj_body = ''RIFF'', obj_json = Inl ''not JSON''\<rparr>"
    by (simp add: demo_image_bucket_def imagePath_def)
  have h2: "bucket_get demo_image_bucket (imagePath (PathString ''notes'')) = Absent"
    by (simp add: demo_image_bucket_def imagePath_def)
  have e: "endsWith (imagePath (PathArray [''covers'', ''a.webp''])) ''.webp''"
    by (simp add: imagePath_def endsWith_def)
  from image_content_type [of demo_image_bucket "PathArray [''covers'', ''a.webp'']"
                              "\<lparr>obj_body = ''RIFF'', obj_json = Inl ''not JSON''\<rparr>"] h1 e
  have "header (onRequest_image demo_image_bucket (PathArray [''covers'', ''a.webp'']))
          ''Content-Type'' = Some ''image/webp''"
    by blast
  moreover from image_content_type [of demo_image_bucket "PathString ''notes''"] h2
  have "status (onRequest_image demo_image_bucket (PathString ''notes'')) = 404"
    by blast
  ultimately show ?thesis using h1 h2 by blast
qed

section \<open>Properties of the chapter handler\<close>

lemma status_json_response [simp]: "status (json_response st v extra) = st"
  by (simp add: json_response_def)

lemma body_json_response [simp]: "body (json_response st v extra) = Json v"
  by (simp add: json_response_def)

text \<open>The outcomes of the \<open>try\<close> block, with what the bucket and the metadata were.\<close>

lemma chapter_try_cases:
  "(\<exists>msg. fst (chapter_try chk env race b w n) = Inl msg)
   \<or> (chapter_try chk env race b w n
         = (Inr (json_response 404 (error_body ''Webtoon not found'') []),
            {#Get (w @ ''/webtoon.json'')#})
        \<and> bucket_get b (w @ ''/webtoon.json'') = Absent)
   \<or> (\<exists>obj meta ch.
          chapter_try chk env race b w n
            = (Inr (json_response 404 (error_body ''Chapter not found'') []),
               {#Get (w @ ''/webtoon.json'')#})
        \<and> bucket_get b (w @ ''/webtoon.json'') = Present obj \<and> obj_json obj = Inr meta
        \<and> chapter_of env meta n = Inr ch \<and> \<not> truthy env ch)
   \<or> (\<exists>obj meta ch sd checks payload.
          chapter_try chk env race b w n
            = (Inr (json_response 200 payload [(''Cache-Control'', ''public, max-age=300'')]),
               add_mset (Get (w @ ''/webtoon.json''))
                 (sum_list (map (\<lambda>(segment, scene). snd (chk env b w n segment)) sd)))
        \<and> bucket_get b (w @ ''/webtoon.json'') = Present obj \<and> obj_json obj = Inr meta
        \<and> chapter_of env meta n = Inr ch \<and> truthy env ch
        \<and> segmentData env ch = Inr sd
        \<and> promise_all race (map (\<lambda>(segment, scene). fst (chk env b w n segment)) sd)
            = Inr checks
        \<and> chapter_payload env w n meta ch sd checks = Inr payload)"
  unfolding chapter_try_def
  by (auto split: reply.splits sum.splits)

lemma chapter_of_array_none:
  "map_of ps ''chapters'' = Some (JArr chs) \<Longrightarrow> chapter_position env (length chs) n = None
     \<Longrightarrow> chapter_of env (JObj ps) n = Inr JUndef"
  by (simp add: chapter_of_def member_def opt_element_def element_def chapter_position_def)

lemma chapter_of_array_some:
  "map_of ps ''chapters'' = Some (JArr chs) \<Longrightarrow> chapter_position env (length chs) n = Some i
     \<Longrightarrow> chapter_of env (JObj ps) n = Inr (chs ! i)"
  by (simp add: chapter_of_def member_def opt_element_def element_def chapter_position_def)

lemma chapter_of_no_chapters:
  "map_of ps ''chapters'' = None \<Longrightarrow> chapter_of env (JObj ps) n = Inr JUndef"
  by (simp add: chapter_of_def member_def opt_element_def)

lemma onRequest_chapter_short:
  "length (pathParts p) < 2 \<Longrightarrow>
     onRequest_chapter chk env race b p = (json_response 400 (error_body ''Invalid path'') [], {#})"
  by (simp add: onRequest_chapter_def)

lemma onRequest_chapter_cases:
  assumes "2 \<le> length (pathParts p)"
  shows "(\<exists>msg. fst (onRequest_chapter chk env race b p) = json_response 500 (error_body msg) [])
   \<or> (onRequest_chapter chk env race b p
         = (json_response 404 (error_body ''Webtoon not found'') [], {#Get (webtoon_key p)#})
        \<and> bucket_get b (webtoon_key p) = Absent)
   \<or> (\<exists>obj meta ch.
          onRequest_chapter chk env race b p
            = (json_response 404 (error_body ''Chapter not found'') [], {#Get (webtoon_key p)#})
        \<and> bucket_get b (webtoon_key p) = Present obj \<and> obj_json obj = Inr meta
        \<and> chapter_of env meta (chapterNum_of env p) = Inr ch \<and> \<not> truthy env ch)
   \<or> (\<exists>obj meta ch sd checks payload.
          onRequest_chapter chk env race b p
            = (json_response 200 payload [(''Cache-Control'', ''public, max-age=300'')],
               add_mset (Get (webtoon_key p))
                 (sum_list (map (\<lambda>(segment, scene).
                    snd (chk env b (pathParts p ! 0) (chapterNum_of env p) segment)) sd)))
        \<and> bucket_get b (webtoon_key p) = Present obj \<and> obj_json obj = Inr meta
        \<and> chapter_of env meta (chapterNum_of env p) = Inr ch \<and> truthy env ch
        \<and> segmentData env ch = Inr sd
        \<and> promise_all race (map (\<lambda>(segment, scene).
               fst (chk env b (pathParts p ! 0) (chapterNum_of env p) segment)) sd) = Inr checks
        \<and> chapter_payload env (pathParts p ! 0) (chapterNum_of env p) meta ch sd checks
            = Inr payload)"
proof -
  from assms have nb: "\<not> length (pathParts p) < 2" by simp
  from chapter_try_cases [of chk env race b "pathParts p ! 0" "parseInt env (pathParts p ! 1)"]
  show ?thesis
    unfolding onRequest_chapter_def webtoon_key_def chapterNum_of_def
    using nb by (elim disjE exE conjE) (simp_all, blast+)
qed

lemma onRequest_chapter_no_webtoon:
  "2 \<le> length (pathParts p) \<Longrightarrow> bucket_get b (webtoon_key p) = Absent \<Longrightarrow>
     onRequest_chapter chk env race b p
       = (json_response 404 (error_body ''Webtoon not found'') [], {#Get (webtoon_key p)#})"
  by (simp add: onRequest_chapter_def chapter_try_def webtoon_key_def)

lemma onRequest_chapter_no_chapter:
  "2 \<le> length (pathParts p) \<Longrightarrow> bucket_get b (webtoon_key p) = Present obj \<Longrightarrow>
   obj_json obj = Inr meta \<Longrightarrow> chapter_of env meta (chapterNum_of env p) = Inr ch \<Longrightarrow>
   \<not> truthy env ch \<Longrightarrow>
     onRequest_chapter chk env race b p
       = (json_response 404 (error_body ''Chapter not found'') [], {#Get (webtoon_key p)#})"
  by (simp add: onRequest_chapter_def chapter_try_def webtoon_key_def chapterNum_of_def)

lemma not_truthy_undef: "\<not> truthy env JUndef"
  by (simp add: truthy_def)

lemma copy_props_fields:
  "copy_props env v fs = Inr r \<Longrightarrow> map fst r = map fst fs"
  by (induction fs arbitrary: r) (auto split: sum.splits)

subsection \<open>Chapter numbers and array positions\<close>

lemma decimal_nonempty: "decimal n \<noteq> []"
  by (subst decimal.simps) simp

lemma decimal_small: "n < 10 \<Longrightarrow> decimal n = [char_of (48 + n)]"
  by (subst decimal.simps) simp

lemma decimal_large:
  "\<not> n < 10 \<Longrightarrow> decimal n = decimal (n div 10) @ [char_of (48 + n mod 10)]"
  by (subst decimal.simps) simp

lemma digit_char_inj:
  assumes "a < 10" "b < 10" "char_of (48 + a) = (char_of (48 + b) :: char)"
  shows "a = (b::nat)"
proof -
  from assms(3) have "of_char (char_of (48 + a) :: char) = (of_char (char_of (48 + b) :: char) :: nat)"
    by simp
  with assms(1,2) show ?thesis by (simp add: of_char_of)
qed

lemma decimal_inj: "decimal n = decimal m \<Longrightarrow> n = m"
proof (induction n arbitrary: m rule: decimal.induct)
  case (1 n)
  show ?case
  proof (cases "n < 10")
    case True
    note n = decimal_small [OF True]
    show ?thesis
    proof (cases "m < 10")
      case m: True
      from "1.prems" have "char_of (48 + n) = (char_of (48 + m) :: char)"
        unfolding n decimal_small [OF m] by simp
      with True m show ?thesis by (rule digit_char_inj)
    next
      case False
      from "1.prems" decimal_nonempty [of "m div 10"] show ?thesis
        unfolding n decimal_large [OF False] by simp
    qed
  next
    case False
    note n = decimal_large [OF False]
    show ?thesis
    proof (cases "m < 10")
      case True
      from "1.prems" decimal_nonempty [of "n div 10"] show ?thesis
        unfolding n decimal_small [OF True] by simp
    next
      case m: False
      from "1.prems" have
        d: "decimal (n div 10) = decimal (m div 10)"
        and c: "char_of (48 + n mod 10) = (char_of (48 + m mod 10) :: char)"
        unfolding n decimal_large [OF m] by simp_all
      from "1.IH" [OF False d] have "n div 10 = m div 10" .
      moreover have "n mod 10 = m mod 10"
        by (rule digit_char_inj [OF _ _ c]) simp_all
      ultimately show ?thesis by (metis div_mult_mod_eq)
    qed
  qed
qed

lemma find_snoc:
  "List.find P (xs @ [x]) = (case List.find P xs of None \<Rightarrow> (if P x then Some x else None) | Some y \<Rightarrow> Some y)"
  by (induction xs) auto

lemma find_index: "List.find (\<lambda>j. j = i) [0..<len] = (if i < len then Some i else None)"
  by (induction len) (auto simp: find_snoc)

lemma index_of_key_decimal:
  "index_of_key len (decimal i) = (if i < len then Some i else None)"
proof -
  have "(\<lambda>j. decimal j = decimal i) = (\<lambda>j. j = i)"
    by (auto dest: decimal_inj)
  then show ?thesis by (simp add: index_of_key_def find_index)
qed

lemma decimal_digits: "c \<in> set (decimal n) \<Longrightarrow> 48 \<le> (of_char c :: nat) \<and> (of_char c :: nat) < 58"
proof (induction n rule: decimal.induct)
  case (1 n)
  show ?case
  proof (cases "n < 10")
    case True
    with "1.prems" show ?thesis
      unfolding decimal_small [OF True] by (auto simp: of_char_of)
  next
    case False
    from "1.prems" have "c \<in> set (decimal (n div 10)) \<or> c = char_of (48 + n mod 10)"
      unfolding decimal_large [OF False] by auto
    then show ?thesis
    proof
      assume "c \<in> set (decimal (n div 10))"
      with "1.IH" [OF False] show ?thesis by simp
    next
      assume c: "c = char_of (48 + n mod 10)"
      have "n mod 10 < 10" by simp
      then have "(48 + n mod 10) mod 256 = 48 + n mod 10" by simp
      with c show ?thesis by (simp add: of_char_of)
    qed
  qed
qed

lemma index_of_key_not_digits:
  assumes "c \<in> set key" "\<not> (48 \<le> (of_char c :: nat) \<and> (of_char c :: nat) < 58)"
  shows "index_of_key len key = None"
proof -
  have "decimal j \<noteq> key" for j
    using assms decimal_digits [of c j] by auto
  then show ?thesis by (simp add: index_of_key_def find_None_iff)
qed

text \<open>
  In the integer instance the chapter number \<open>n\<close> denotes position \<open>n - 1\<close> of the chapter
  array when \<open>1 \<le> n \<le> len\<close>, and no position otherwise; \<open>NaN\<close> denotes none.
\<close>

lemma int_chapter_position:
  "chapter_position int_env len (Some n)
     = (if 1 \<le> n \<and> n \<le> int len then Some (nat (n - 1)) else None)"
  "chapter_position int_env len None = None"
proof -
  show "chapter_position int_env len (Some n)
     = (if 1 \<le> n \<and> n \<le> int len then Some (nat (n - 1)) else None)"
  proof (cases "n - 1 < 0")
    case True
    have "index_of_key len (''-'' @ decimal (nat (- (n - 1)))) = None"
      by (rule index_of_key_not_digits [of "CHR ''-''"]) simp_all
    with True show ?thesis
      by (simp add: chapter_position_def int_env_def int_to_string_def)
  next
    case False
    then have "chapter_position int_env len (Some n) = index_of_key len (decimal (nat (n - 1)))"
      by (simp add: chapter_position_def int_env_def int_to_string_def)
    with False show ?thesis by (auto simp: index_of_key_decimal)
  qed
  have "index_of_key len ''NaN'' = None"
    by (rule index_of_key_not_digits [of "CHR ''N''"]) simp_all
  then show "chapter_position int_env len None = None"
    by (simp add: chapter_position_def int_env_def int_to_string_def)
qed

subsection \<open>Reading properties\<close>

lemma member_object: "member env (JObj ps) name = Inr (own (JObj ps) name)"
  by (simp add: member_def own_def)

lemma member_defined:
  "v \<noteq> JNull \<Longrightarrow> v \<noteq> JUndef \<Longrightarrow> \<exists>x. member env v name = Inr x"
  by (cases v) (simp_all add: member_def)

lemma member_nonnullish: "member env v name = Inr x \<Longrightarrow> v \<noteq> JNull \<and> v \<noteq> JUndef"
  by (cases v) (simp_all add: member_def)

lemma copy_props_object:
  "copy_props env (JObj ps) fs = Inr (map (\<lambda>(f, k). (f, own (JObj ps) k)) fs)"
  by (induction fs) (auto simp: member_object)

lemma copy_props_defined:
  assumes "v \<noteq> JNull" "v \<noteq> JUndef"
  shows "\<exists>r. copy_props env v fs = Inr r"
proof (induction fs)
  case Nil
  then show ?case by simp
next
  case (Cons f fs)
  obtain field key where f: "f = (field, key)" by (cases f)
  from member_defined [OF assms] obtain x where "member env v key = Inr x" by blast
  with Cons f show ?case by auto
qed

subsection \<open>The segments of a well-formed chapter\<close>

lemma object_cases: "is_object v \<Longrightarrow> \<exists>ps. v = JObj ps"
  by (cases v) (simp_all add: is_object_def)

lemma segments_of_scene:
  assumes "is_object scene" "absent_or_objects (own scene ''segments'')"
  shows "member env scene ''segments'' = Inr (own scene ''segments'')"
    and "iterate env (or_else env (own scene ''segments'') (JArr []))
           = Inr (items (own scene ''segments''))"
proof -
  from object_cases [OF assms(1)] show "member env scene ''segments'' = Inr (own scene ''segments'')"
    by (auto simp: member_object)
  from assms(2) show "iterate env (or_else env (own scene ''segments'') (JArr []))
           = Inr (items (own scene ''segments''))"
    by (cases "own scene ''segments''")
       (simp_all add: absent_or_objects_def or_else_def truthy_def iterate_def items_def)
qed

lemma scene_segments_well_formed:
  assumes "list_all is_object scenes"
    "list_all (\<lambda>scene. absent_or_objects (own scene ''segments'')) scenes"
  shows "scene_segments env scenes
           = Inr (concat (map (\<lambda>scene. map (\<lambda>segment. (segment, scene))
                                         (items (own scene ''segments''))) scenes))"
  using assms
proof (induction scenes)
  case Nil
  then show ?case by simp
next
  case (Cons scene scenes)
  then have "is_object scene" "absent_or_objects (own scene ''segments'')" by simp_all
  from segments_of_scene [OF this, of env] Cons show ?case by simp
qed

lemma segmentData_well_formed:
  assumes "well_formed_chapter chapter"
  shows "segmentData env chapter = Inr (chapter_pairs chapter)"
proof -
  from assms have obj: "is_object chapter" and sc: "absent_or_objects (own chapter ''scenes'')"
    and each: "list_all (\<lambda>scene. absent_or_objects (own scene ''segments''))
                 (items (own chapter ''scenes''))"
    by (simp_all add: well_formed_chapter_def list_all_iff)
  from sc have objs: "list_all is_object (items (own chapter ''scenes''))"
    by (cases "own chapter ''scenes''") (simp_all add: absent_or_objects_def items_def)
  from object_cases [OF obj] have m: "member env chapter ''scenes'' = Inr (own chapter ''scenes'')"
    by (auto simp: member_object)
  from sc have it: "iterate env (or_else env (own chapter ''scenes'') (JArr []))
                      = Inr (items (own chapter ''scenes''))"
    by (cases "own chapter ''scenes''")
       (simp_all add: absent_or_objects_def or_else_def truthy_def iterate_def items_def)
  from m it scene_segments_well_formed [OF objs each, of env] show ?thesis
    by (simp add: segmentData_def chapter_pairs_def)
qed

lemma well_formed_pair:
  assumes "well_formed_chapter chapter" "(segment, scene) \<in> set (chapter_pairs chapter)"
  shows "is_object segment" "is_object scene" "has_string_id segment"
proof -
  from assms(2) have sc: "scene \<in> set (items (own chapter ''scenes''))"
    and sg: "segment \<in> set (items (own scene ''segments''))"
    by (auto simp: chapter_pairs_def)
  from assms(1) have "absent_or_objects (own chapter ''scenes'')"
    by (simp add: well_formed_chapter_def)
  with sc show "is_object scene"
    by (cases "own chapter ''scenes''")
       (auto simp: absent_or_objects_def items_def list_all_iff)
  from assms(1) sc have a: "absent_or_objects (own scene ''segments'')"
    and s: "list_all has_string_id (items (own scene ''segments''))"
    by (auto simp: well_formed_chapter_def list_all_iff)
  from a sg show "is_object segment"
    by (cases "own scene ''segments''")
       (auto simp: absent_or_objects_def items_def list_all_iff)
  from s sg show "has_string_id segment" by (simp add: list_all_iff)
qed

lemma asset_path_well_formed:
  assumes "is_object segment" "has_string_id segment"
  shows "asset_path env w n segment ext = Inr (image_path env w n segment ext)"
    and "member env segment ''id'' = Inr (own segment ''id'')"
proof -
  from object_cases [OF assms(1)] show m: "member env segment ''id'' = Inr (own segment ''id'')"
    by (auto simp: member_object)
  from assms(2) obtain s where "own segment ''id'' = JStr s"
    by (cases "own segment ''id''") (simp_all add: has_string_id_def)
  with m show "asset_path env w n segment ext = Inr (image_path env w n segment ext)"
    by (simp add: asset_path_def image_path_def segment_id_def)
qed

subsection \<open>\<open>Promise.all\<close>, \<open>Map\<close> and \<open>map\<close>\<close>

lemma settled_lists_resolved [simp]:
  "thrown (map Resolved cs) = []" "rejections (map Resolved cs) = []"
  "resolved (map Resolved cs) = cs"
  by (induction cs) simp_all

lemma promise_all_resolved: "promise_all race (map Resolved cs) = Inr cs"
  by (simp add: promise_all_def)

lemma no_failures_resolved:
  "thrown rs = [] \<Longrightarrow> rejections rs = [] \<Longrightarrow> rs = map Resolved (resolved rs)"
proof (induction rs)
  case Nil
  then show ?case by simp
next
  case (Cons r rs)
  then show ?case by (cases r) simp_all
qed

lemma promise_all_Inr: "promise_all race rs = Inr cs \<Longrightarrow> rs = map Resolved cs"
  using no_failures_resolved [of rs]
  by (auto simp: promise_all_def split: list.splits)

lemma promise_all_Inr_iff:
  "(\<exists>cs. promise_all race rs = Inr cs) \<longleftrightarrow> (\<forall>r \<in> set rs. \<exists>c. r = Resolved c)"
proof
  assume "\<exists>cs. promise_all race rs = Inr cs"
  then obtain cs where "rs = map Resolved cs" by (auto dest: promise_all_Inr)
  then show "\<forall>r \<in> set rs. \<exists>c. r = Resolved c" by auto
next
  assume "\<forall>r \<in> set rs. \<exists>c. r = Resolved c"
  then have "rs = map Resolved (resolved rs)"
  proof (induction rs)
    case Nil
    then show ?case by simp
  next
    case (Cons r rs)
    then show ?case by (cases r) auto
  qed
  then have "promise_all race rs = Inr (resolved rs)"
    using promise_all_resolved [of race "resolved rs"] by simp
  then show "\<exists>cs. promise_all race rs = Inr cs" by blast
qed

lemma map_res_all:
  "(\<And>x. x \<in> set xs \<Longrightarrow> f x = Inr (g x)) \<Longrightarrow> map_res f xs = Inr (map g xs)"
  by (induction xs) simp_all

lemma map_res_Inr:
  "map_res f xs = Inr ys \<Longrightarrow>
     length ys = length xs \<and> (\<forall>j < length xs. f (xs ! j) = Inr (ys ! j))"
proof (induction xs arbitrary: ys)
  case Nil
  then show ?case by simp
next
  case (Cons x xs)
  then obtain y ys' where
    "f x = Inr y" "map_res f xs = Inr ys'" "ys = y # ys'"
    by (auto split: sum.splits)
  with Cons.IH [of ys'] show ?case
    by (auto simp: nth_Cons split: nat.splits)
qed

lemma map_res_defined:
  "(\<And>x. x \<in> set xs \<Longrightarrow> \<exists>y. f x = Inr y) \<Longrightarrow> \<exists>ys. map_res f xs = Inr ys"
proof (induction xs)
  case Nil
  then show ?case by simp
next
  case (Cons x xs)
  from Cons.prems obtain y where "f x = Inr y" by auto
  moreover from Cons obtain ys where "map_res f xs = Inr ys" by auto
  ultimately show ?case by simp
qed

lemma same_value_zero_cases:
  "same_value_zero (i, key) (j, key') \<Longrightarrow> j = i \<or> key' = key"
  by (auto simp: same_value_zero_def split: if_splits)

lemma same_value_zero_refl: "same_value_zero (i, key) (i, key)"
  by (simp add: same_value_zero_def)

lemma imageMap_get_last:
  assumes "i < length checks" "check_id (checks ! i) = key"
    and "\<And>j. j < length checks \<Longrightarrow> same_value_zero (i, key) (j, check_id (checks ! j))
           \<Longrightarrow> P (checks ! j)"
  shows "\<exists>c. imageMap_get checks i key = Some c \<and> P c"
proof -
  let ?hits = "filter (\<lambda>(j, c). same_value_zero (i, key) (j, check_id c)) (enumerate 0 checks)"
  from assms(1) have "(i, checks ! i) \<in> set (enumerate 0 checks)"
    by (simp add: in_set_enumerate_eq)
  with assms(2) have "(i, checks ! i) \<in> set ?hits"
    by (simp add: same_value_zero_refl)
  then have ne: "?hits \<noteq> []" by (metis empty_iff list.set(1))
  then have mem: "last ?hits \<in> set ?hits" by (rule last_in_set)
  obtain j c where jc: "last ?hits = (j, c)" by (rule prod.exhaust)
  from mem have "(j, c) \<in> set ?hits" unfolding jc .
  then have jc': "(j, c) \<in> set (enumerate 0 checks)" "same_value_zero (i, key) (j, check_id c)"
    by simp_all
  from jc'(1) have "j < length checks" "c = checks ! j"
    by (simp_all add: in_set_enumerate_eq)
  with assms(3) jc'(2) have "P c" by blast
  moreover have "imageMap_get checks i key = Some c"
  proof -
    from ne obtain h hs where hh: "?hits = h # hs" by (cases ?hits) auto
    have "imageMap_get checks i key = Some (snd (last (h # hs)))"
      unfolding imageMap_get_def hh by (simp del: last.simps)
    with hh jc show ?thesis by simp
  qed
  ultimately show ?thesis by blast
qed

lemma choose_list:
  "(\<And>x. x \<in> set xs \<Longrightarrow> \<exists>y. R x y) \<Longrightarrow> \<exists>ys. list_all2 R xs ys"
proof (induction xs)
  case Nil
  then show ?case by simp
next
  case (Cons x xs)
  from Cons.prems obtain y where "R x y" by auto
  moreover from Cons obtain ys where "list_all2 R xs ys" by auto
  ultimately have "list_all2 R (x # xs) (y # ys)" by simp
  then show ?case by blast
qed

subsection \<open>The payload of a well-formed chapter\<close>

lemma build_segment_well_formed:
  assumes "is_object segment" "is_object scene"
    and "imageMap_get checks i (own segment ''id'') = Some c"
    and "check_exists c = (found segment \<noteq> None)"
    and "check_exists c \<longrightarrow> found segment = Some (check_path c)"
  shows "build_segment env checks (i, segment, scene)
           = Inr (expected_segment found (segment, scene))"
proof -
  from object_cases [OF assms(1)] obtain ps where ps: "segment = JObj ps" by blast
  from object_cases [OF assms(2)] obtain qs where qs: "scene = JObj qs" by blast
  from assms(4,5) have img: "image_url (Some c)
            = (case found segment of None \<Rightarrow> JNull | Some path \<Rightarrow> JStr (''/api/image/'' @ path))"
    "has_image (Some c) = JBool (found segment \<noteq> None)"
    by (auto simp: image_url_def has_image_def)
  show ?thesis
    unfolding build_segment_def ps qs
    using assms(3) img
    by (simp add: member_object copy_props_object segment_fields_def expected_segment_def ps)
qed

lemma map_enumerate_snd: "map (\<lambda>x. g (snd x)) (enumerate n xs) = map g xs"
  by (induction xs arbitrary: n) simp_all

lemma total_chapters_array:
  "map_of mps ''chapters'' = Some (JArr chs) \<Longrightarrow>
     total_chapters env (JObj mps)
       = Inr (if num_truthy env (num_of_nat env (length chs))
              then JNum (num_of_nat env (length chs))
              else JNum (num_of_nat env 0))"
  by (simp add: total_chapters_def member_def opt_member_def or_else_def truthy_def)

lemma chapter_payload_well_formed:
  assumes wf: "well_formed_chapter ch"
    and chapters: "map_of mps ''chapters'' = Some (JArr chs)"
    and len: "length checks = length (chapter_pairs ch)"
    and ok: "\<And>j. j < length (chapter_pairs ch) \<Longrightarrow>
               check_id (checks ! j) = own (fst (chapter_pairs ch ! j)) ''id''
               \<and> check_exists (checks ! j) = (found (fst (chapter_pairs ch ! j)) \<noteq> None)
               \<and> (check_exists (checks ! j)
                    \<longrightarrow> found (fst (chapter_pairs ch ! j)) = Some (check_path (checks ! j)))"
    and found_id: "\<And>sg sg'. own sg ''id'' = own sg' ''id'' \<Longrightarrow> found sg = found sg'"
  shows "chapter_payload env w n (JObj mps) ch (chapter_pairs ch) checks
           = Inr (expected_payload env w n (JObj mps) chs ch found)"
proof -
  let ?pairs = "chapter_pairs ch"
  have each: "build_segment env checks x = Inr (expected_segment found (snd x))"
    if x: "x \<in> set (enumerate 0 ?pairs)" for x
  proof -
    obtain i sg sc where xi: "x = (i, sg, sc)" by (cases x) auto
    with x have i: "i < length ?pairs" and at: "?pairs ! i = (sg, sc)"
      by (simp_all add: in_set_enumerate_eq)
    then have mem: "(sg, sc) \<in> set ?pairs" by (metis nth_mem)
    note objs = well_formed_pair [OF wf mem]
    let ?P = "\<lambda>c. check_exists c = (found sg \<noteq> None)
                   \<and> (check_exists c \<longrightarrow> found sg = Some (check_path c))"
    have "\<exists>c. imageMap_get checks i (own sg ''id'') = Some c \<and> ?P c"
    proof (rule imageMap_get_last)
      show "i < length checks" using i len by simp
      from ok [OF i] at show "check_id (checks ! i) = own sg ''id''" by simp
    next
      fix j
      assume j: "j < length checks"
        and same: "same_value_zero (i, own sg ''id'') (j, check_id (checks ! j))"
      from j len have j': "j < length ?pairs" by simp
      from same_value_zero_cases [OF same] ok [OF j'] at
      have "own (fst (?pairs ! j)) ''id'' = own sg ''id''" by auto
      from found_id [OF this] ok [OF j'] show "?P (checks ! j)" by simp
    qed
    then obtain c where "imageMap_get checks i (own sg ''id'') = Some c" "?P c" by blast
    with build_segment_well_formed [OF objs(1,2), of checks i c found env] xi
    show ?thesis by simp
  qed
  have "map (\<lambda>x. expected_segment found (snd x)) (enumerate 0 ?pairs)
          = map (expected_segment found) ?pairs"
    by (rule map_enumerate_snd)
  then have segs: "map_res (build_segment env checks) (enumerate 0 ?pairs)
                = Inr (map (expected_segment found) ?pairs)"
    using map_res_all [of "enumerate 0 ?pairs" "build_segment env checks"
                          "\<lambda>x. expected_segment found (snd x)", OF each]
    by simp
  from wf have "is_object ch" by (simp add: well_formed_chapter_def)
  from object_cases [OF this] obtain cps where cps: "ch = JObj cps" by blast
  have mt: "copy_props env (JObj mps) [(''webtoon_title'', ''title'')]
              = Inr [(''webtoon_title'', own (JObj mps) ''title'')]"
    by (simp add: member_object)
  have ct: "copy_props env ch [(''chapter_title'', ''title''), (''chapter_summary'', ''summary'')]
              = Inr [(''chapter_title'', own ch ''title''),
                     (''chapter_summary'', own ch ''summary'')]"
    unfolding cps by (simp add: member_object)
  show ?thesis
    unfolding chapter_payload_def segs mt ct total_chapters_array [OF chapters]
              expected_payload_def
    by simp
qed

lemma truthy_object: "is_object v \<Longrightarrow> truthy env v"
  by (cases v) (simp_all add: is_object_def truthy_def)

lemma onRequest_chapter_well_formed:
  assumes two: "2 \<le> length (pathParts p)"
    and get: "bucket_get b (webtoon_key p) = Present obj" "obj_json obj = Inr (JObj mps)"
    and chapters: "map_of mps ''chapters'' = Some (JArr chs)"
    and pos: "chapter_position env (length chs) (chapterNum_of env p) = Some i"
    and wf: "well_formed_chapter (chs ! i)"
    and chk_ok: "\<And>sg sc. (sg, sc) \<in> set (chapter_pairs (chs ! i)) \<Longrightarrow>
        \<exists>c. fst (chk env b (pathParts p ! 0) (chapterNum_of env p) sg) = Resolved c
          \<and> check_id c = own sg ''id'' \<and> check_exists c = (found sg \<noteq> None)
          \<and> (check_exists c \<longrightarrow> found sg = Some (check_path c))"
    and found_id: "\<And>sg sg'. own sg ''id'' = own sg' ''id'' \<Longrightarrow> found sg = found sg'"
  shows "fst (onRequest_chapter chk env race b p)
           = \<lparr>status = 200,
              body = Json (expected_payload env (pathParts p ! 0) (chapterNum_of env p)
                             (JObj mps) chs (chs ! i) found),
              headers = [(''Content-Type'', ''application/json''),
                         (''Cache-Control'', ''public, max-age=300'')]\<rparr>"
proof -
  let ?w = "pathParts p ! 0" and ?n = "chapterNum_of env p" and ?ch = "chs ! i"
  let ?pairs = "chapter_pairs ?ch"
  let ?R = "\<lambda>x c. fst (chk env b ?w ?n (fst x)) = Resolved c
          \<and> check_id c = own (fst x) ''id'' \<and> check_exists c = (found (fst x) \<noteq> None)
          \<and> (check_exists c \<longrightarrow> found (fst x) = Some (check_path c))"
  have "\<exists>cs. list_all2 ?R ?pairs cs"
  proof (rule choose_list)
    fix x assume "x \<in> set ?pairs"
    then have "(fst x, snd x) \<in> set ?pairs" by simp
    from chk_ok [OF this] show "\<exists>c. ?R x c" .
  qed
  then obtain cs where cs: "list_all2 ?R ?pairs cs" by blast
  then have len: "length cs = length ?pairs" by (simp add: list_all2_lengthD)
  from cs have at: "\<And>j. j < length ?pairs \<Longrightarrow> ?R (?pairs ! j) (cs ! j)"
    by (simp add: list_all2_conv_all_nth)
  have "map (\<lambda>(segment, scene). fst (chk env b ?w ?n segment)) ?pairs = map Resolved cs"
  proof (rule nth_equalityI)
    show "length (map (\<lambda>(segment, scene). fst (chk env b ?w ?n segment)) ?pairs)
            = length (map Resolved cs)"
      using len by simp
  next
    fix j assume "j < length (map (\<lambda>(segment, scene). fst (chk env b ?w ?n segment)) ?pairs)"
    then have j: "j < length ?pairs" by simp
    from at [OF j] have "fst (chk env b ?w ?n (fst (?pairs ! j))) = Resolved (cs ! j)" by (rule conjunct1)
    with j len show "map (\<lambda>(segment, scene). fst (chk env b ?w ?n segment)) ?pairs ! j
                   = map Resolved cs ! j"
      by (simp add: case_prod_unfold)
  qed
  then have all: "promise_all race (map (\<lambda>(segment, scene). fst (chk env b ?w ?n segment)) ?pairs)
                    = Inr cs"
    by (simp add: promise_all_resolved)
  have payload: "chapter_payload env ?w ?n (JObj mps) ?ch ?pairs cs
                   = Inr (expected_payload env ?w ?n (JObj mps) chs ?ch found)"
  proof (rule chapter_payload_well_formed [OF wf chapters len])
    fix j assume "j < length ?pairs"
    from at [OF this] show "check_id (cs ! j) = own (fst (?pairs ! j)) ''id''
        \<and> check_exists (cs ! j) = (found (fst (?pairs ! j)) \<noteq> None)
        \<and> (check_exists (cs ! j) \<longrightarrow> found (fst (?pairs ! j)) = Some (check_path (cs ! j)))"
      by (rule conjunct2)
  next
    fix sg sg' :: "'a jv" assume "own sg ''id'' = own sg' ''id''"
    then show "found sg = found sg'" by (rule found_id)
  qed
  have ch: "chapter_of env (JObj mps) ?n = Inr ?ch"
    using chapters pos by (rule chapter_of_array_some)
  from wf have tr: "truthy env ?ch" by (simp add: well_formed_chapter_def truthy_object)
  from two have nb: "\<not> length (pathParts p) < 2" by simp
  from get have g: "bucket_get b (?w @ ''/webtoon.json'') = Present obj"
    by (simp add: webtoon_key_def)
  from ch have ch': "chapter_of env (JObj mps) (parseInt env (pathParts p ! 1)) = Inr ?ch"
    by (simp add: chapterNum_of_def)
  have sd: "segmentData env ?ch = Inr ?pairs" using wf by (rule segmentData_well_formed)
  have "chapter_try chk env race b ?w (parseInt env (pathParts p ! 1))
          = (Inr (json_response 200 (expected_payload env ?w ?n (JObj mps) chs ?ch found)
                    [(''Cache-Control'', ''public, max-age=300'')]),
             add_mset (Get (?w @ ''/webtoon.json''))
               (sum_list (map (\<lambda>(segment, scene). snd (chk env b ?w ?n segment)) ?pairs)))"
    unfolding chapter_try_def g reply.case get(2) sum.case ch' sd
      all [unfolded chapterNum_of_def] payload [unfolded chapterNum_of_def] chapterNum_of_def
    using tr by simp
  then show ?thesis
    unfolding onRequest_chapter_def if_not_P [OF nb]
    by (simp add: json_response_def chapterNum_of_def)
qed

subsection \<open>The two image checks on a well-formed segment\<close>

lemma imageCheck_v1_well_formed:
  assumes "is_object sg" "has_string_id sg" "\<not> rejects b (image_path env w n sg ''.jpg'')"
  shows "fst (imageCheck_v1 env b w n sg)
           = Resolved \<lparr>check_id = own sg ''id'',
                       check_exists = stored b (image_path env w n sg ''.jpg''),
                       check_path = image_path env w n sg ''.jpg''\<rparr>"
  using assms(3) asset_path_well_formed [OF assms(1,2)]
  by (simp add: imageCheck_v1_def rejects_def stored_def split: reply.splits)

lemma imageCheck_v2_well_formed:
  assumes "is_object sg" "has_string_id sg"
    "\<not> rejects b (image_path env w n sg ''.png'')"
    "stored b (image_path env w n sg ''.png'') \<or> \<not> rejects b (image_path env w n sg ''.jpg'')"
  shows "fst (imageCheck_v2 env b w n sg)
           = Resolved \<lparr>check_id = own sg ''id'',
                       check_exists = (found_v2 env b w n sg \<noteq> None),
                       check_path = (if stored b (image_path env w n sg ''.png'')
                                     then image_path env w n sg ''.png''
                                     else image_path env w n sg ''.jpg'')\<rparr>"
  using assms(3,4) asset_path_well_formed [OF assms(1,2)]
  by (auto simp: imageCheck_v2_def rejects_def stored_def found_v2_def split: reply.splits)

lemma found_same_id:
  assumes "own sg ''id'' = own sg' ''id''"
  shows "found_v1 env b w n sg = found_v1 env b w n sg'"
    and "found_v2 env b w n sg = found_v2 env b w n sg'"
  using assms by (simp_all add: found_v1_def found_v2_def image_path_def segment_id_def)

subsection \<open>When the chapter is served\<close>

lemma truthy_nonnullish: "truthy env v \<Longrightarrow> v \<noteq> JNull \<and> v \<noteq> JUndef"
  by (cases v) (simp_all add: truthy_def)

lemma scene_segments_scene:
  "scene_segments env scenes = Inr sd \<Longrightarrow> (sg, sc) \<in> set sd \<Longrightarrow> sc \<noteq> JNull \<and> sc \<noteq> JUndef"
proof (induction scenes arbitrary: sd)
  case Nil
  then show ?case by simp
next
  case (Cons scene scenes)
  from Cons.prems(1) obtain ss segments others where
      m: "member env scene ''segments'' = Inr ss"
    and others: "scene_segments env scenes = Inr others"
    and sd: "sd = map (\<lambda>segment. (segment, scene)) segments @ others"
    by (auto split: sum.splits)
  from Cons.prems(2) sd consider "sc = scene" | "(sg, sc) \<in> set others" by auto
  then show ?case
  proof cases
    case 1
    with member_nonnullish [OF m] show ?thesis by simp
  next
    case 2
    with Cons.IH [OF others] show ?thesis by simp
  qed
qed

lemma segmentData_scene:
  "segmentData env ch = Inr sd \<Longrightarrow> (sg, sc) \<in> set sd \<Longrightarrow> sc \<noteq> JNull \<and> sc \<noteq> JUndef"
  by (auto simp: segmentData_def split: sum.splits dest: scene_segments_scene)

lemma total_chapters_defined:
  assumes "member env meta ''chapters'' = Inr cs"
  shows "\<exists>t. total_chapters env meta = Inr t"
proof (cases "cs = JNull \<or> cs = JUndef")
  case True
  with assms show ?thesis by (auto simp: total_chapters_def opt_member_def)
next
  case False
  with member_defined [of cs env "''length''"] obtain x where "member env cs ''length'' = Inr x"
    by auto
  with assms False show ?thesis by (simp add: total_chapters_def opt_member_def)
qed

lemma build_segment_defined:
  assumes "sg \<noteq> JNull \<and> sg \<noteq> JUndef" "sc \<noteq> JNull \<and> sc \<noteq> JUndef"
  shows "\<exists>y. build_segment env checks (i, sg, sc) = Inr y"
proof -
  from assms(1) member_defined [of sg env "''id''"] obtain key where
    "member env sg ''id'' = Inr key" by auto
  moreover from assms(1) copy_props_defined [of sg env segment_fields] obtain fs where
    "copy_props env sg segment_fields = Inr fs" by auto
  moreover from assms(2)
    copy_props_defined [of sc env "[(''scene_id'', ''id''), (''scene_title'', ''title'')]"]
  obtain ss where
    "copy_props env sc [(''scene_id'', ''id''), (''scene_title'', ''title'')] = Inr ss" by auto
  ultimately show ?thesis by (simp add: build_segment_def)
qed

lemma chapter_payload_defined:
  assumes ch: "chapter_of env meta n = Inr ch" and tr: "truthy env ch"
    and sd: "segmentData env ch = Inr sd"
    and sg: "\<And>sg sc. (sg, sc) \<in> set sd \<Longrightarrow> sg \<noteq> JNull \<and> sg \<noteq> JUndef"
  shows "\<exists>payload. chapter_payload env w n meta ch sd checks = Inr payload"
proof -
  from ch obtain cs where cs: "member env meta ''chapters'' = Inr cs"
    by (auto simp: chapter_of_def split: sum.splits)
  have "\<exists>ys. map_res (build_segment env checks) (enumerate 0 sd) = Inr ys"
  proof (rule map_res_defined)
    fix x assume "x \<in> set (enumerate 0 sd)"
    then have "fst x < length sd \<and> sd ! fst x = snd x"
      by (simp add: in_set_enumerate_eq)
    then have "snd x \<in> set sd"
      using nth_mem [of "fst x" sd] by simp
    then obtain i sg' sc' where x: "x = (i, sg', sc')" and mem: "(sg', sc') \<in> set sd"
      by (cases x) auto
    from sg [OF mem] segmentData_scene [OF sd mem]
    show "\<exists>y. build_segment env checks x = Inr y"
      unfolding x by (rule build_segment_defined)
  qed
  then obtain segments where
    segs: "map_res (build_segment env checks) (enumerate 0 sd) = Inr segments" ..
  from member_nonnullish [OF cs] copy_props_defined [of meta env "[(''webtoon_title'', ''title'')]"]
  obtain mt where mt: "copy_props env meta [(''webtoon_title'', ''title'')] = Inr mt" by auto
  from truthy_nonnullish [OF tr]
    copy_props_defined [of ch env "[(''chapter_title'', ''title''), (''chapter_summary'', ''summary'')]"]
  obtain ct where
    ct: "copy_props env ch [(''chapter_title'', ''title''), (''chapter_summary'', ''summary'')]
           = Inr ct" by auto
  from total_chapters_defined [OF cs] obtain t where t: "total_chapters env meta = Inr t" ..
  show ?thesis unfolding chapter_payload_def segs mt ct t by simp
qed

lemma chapter_payload_head:
  assumes "chapter_payload env w n meta ch sd checks = Inr payload"
  shows "field payload ''webtoon_id'' = Some (JStr w)
       \<and> field payload ''chapter_number'' = Some (JNum n)"
proof -
  from assms obtain segments mt ct n_chapters where
      mt: "copy_props env meta [(''webtoon_title'', ''title'')] = Inr mt"
    and payload: "payload = JObj ([(''webtoon_id'', JStr w)] @ mt @
                     [(''chapter_number'', JNum n)] @ ct @
                     [(''total_chapters'', n_chapters), (''segments'', JArr segments)])"
    by (auto simp: chapter_payload_def split: sum.splits)
  from copy_props_fields [OF mt] obtain x where "mt = [(''webtoon_title'', x)]"
    by (cases mt) auto
  with payload show ?thesis by (simp add: field_def)
qed

lemma imageCheck_v1_resolved:
  "fst (imageCheck_v1 env b w n sg) = Resolved c \<Longrightarrow> sg \<noteq> JNull \<and> sg \<noteq> JUndef"
  by (auto simp: imageCheck_v1_def asset_path_def split: sum.splits reply.splits
           dest: member_nonnullish)

lemma imageCheck_v2_resolved:
  "fst (imageCheck_v2 env b w n sg) = Resolved c \<Longrightarrow> sg \<noteq> JNull \<and> sg \<noteq> JUndef"
  by (auto simp: imageCheck_v2_def asset_path_def split: sum.splits reply.splits
           dest: member_nonnullish)

lemma chapter_try_served:
  assumes "bucket_get b (w @ ''/webtoon.json'') = Present obj" "obj_json obj = Inr meta"
    "chapter_of env meta n = Inr ch" "truthy env ch" "segmentData env ch = Inr sd"
    "promise_all race (map (\<lambda>(segment, scene). fst (chk env b w n segment)) sd) = Inr checks"
    "chapter_payload env w n meta ch sd checks = Inr payload"
  shows "fst (chapter_try chk env race b w n)
           = Inr (json_response 200 payload [(''Cache-Control'', ''public, max-age=300'')])"
  unfolding chapter_try_def using assms by simp

lemma onRequest_chapter_served_iff:
  assumes chk: "\<And>sg c. fst (chk env b (pathParts p ! 0) (chapterNum_of env p) sg) = Resolved c
                  \<Longrightarrow> sg \<noteq> JNull \<and> sg \<noteq> JUndef"
  shows "status (fst (onRequest_chapter chk env race b p)) = 200 \<longleftrightarrow>
     2 \<le> length (pathParts p)
     \<and> (\<exists>obj meta ch sd.
          bucket_get b (webtoon_key p) = Present obj \<and> obj_json obj = Inr meta
          \<and> chapter_of env meta (chapterNum_of env p) = Inr ch \<and> truthy env ch
          \<and> segmentData env ch = Inr sd
          \<and> list_all (\<lambda>(segment, scene).
               \<exists>c. fst (chk env b (pathParts p ! 0) (chapterNum_of env p) segment) = Resolved c) sd)"
  (is "?L \<longleftrightarrow> ?two \<and> ?R")
proof
  assume L: ?L
  have two: ?two
  proof (rule ccontr)
    assume "\<not> ?two"
    then have "length (pathParts p) < 2" by simp
    from onRequest_chapter_short [OF this, of chk env race b] L show False by simp
  qed
  from onRequest_chapter_cases [OF two, of chk env race b] L
  obtain obj meta ch sd checks where
      st: "bucket_get b (webtoon_key p) = Present obj" "obj_json obj = Inr meta"
        "chapter_of env meta (chapterNum_of env p) = Inr ch" "truthy env ch"
        "segmentData env ch = Inr sd"
    and all: "promise_all race (map (\<lambda>(segment, scene).
               fst (chk env b (pathParts p ! 0) (chapterNum_of env p) segment)) sd) = Inr checks"
    by (elim disjE exE conjE) simp_all
  from all promise_all_Inr_iff [of race "map (\<lambda>(segment, scene).
               fst (chk env b (pathParts p ! 0) (chapterNum_of env p) segment)) sd"]
  have "\<forall>r \<in> set (map (\<lambda>(segment, scene).
               fst (chk env b (pathParts p ! 0) (chapterNum_of env p) segment)) sd).
          \<exists>c. r = Resolved c" by blast
  then have "list_all (\<lambda>(segment, scene).
          \<exists>c. fst (chk env b (pathParts p ! 0) (chapterNum_of env p) segment) = Resolved c) sd"
    by (auto simp: list_all_iff)
  with st two show "?two \<and> ?R" by blast
next
  assume R: "?two \<and> ?R"
  then obtain obj meta ch sd where two: ?two
    and st: "bucket_get b (webtoon_key p) = Present obj" "obj_json obj = Inr meta"
        "chapter_of env meta (chapterNum_of env p) = Inr ch" "truthy env ch"
        "segmentData env ch = Inr sd"
    and res: "list_all (\<lambda>(segment, scene).
          \<exists>c. fst (chk env b (pathParts p ! 0) (chapterNum_of env p) segment) = Resolved c) sd"
    by blast
  let ?w = "pathParts p ! 0" and ?n = "chapterNum_of env p"
  from res have "\<forall>r \<in> set (map (\<lambda>(segment, scene). fst (chk env b ?w ?n segment)) sd).
                   \<exists>c. r = Resolved c"
    by (auto simp: list_all_iff)
  then obtain checks where
    all: "promise_all race (map (\<lambda>(segment, scene). fst (chk env b ?w ?n segment)) sd) = Inr checks"
    using promise_all_Inr_iff [of race "map (\<lambda>(segment, scene). fst (chk env b ?w ?n segment)) sd"]
    by blast
  have nn: "\<And>sg sc. (sg, sc) \<in> set sd \<Longrightarrow> sg \<noteq> JNull \<and> sg \<noteq> JUndef"
  proof -
    fix sg sc assume "(sg, sc) \<in> set sd"
    with res obtain c where "fst (chk env b ?w ?n sg) = Resolved c"
      by (auto simp: list_all_iff)
    then show "sg \<noteq> JNull \<and> sg \<noteq> JUndef" by (rule chk)
  qed
  have "\<exists>payload. chapter_payload env ?w ?n meta ch sd checks = Inr payload"
    using st(3,4,5) by (rule chapter_payload_defined) (rule nn)
  then obtain payload where
    payload: "chapter_payload env ?w ?n meta ch sd checks = Inr payload" ..
  from st(1) have g: "bucket_get b (?w @ ''/webtoon.json'') = Present obj"
    by (simp add: webtoon_key_def)
  from two have nb: "\<not> length (pathParts p) < 2" by simp
  have "fst (chapter_try chk env race b ?w ?n)
          = Inr (json_response 200 payload [(''Cache-Control'', ''public, max-age=300'')])"
    using g st(2,3,4,5) all payload by (rule chapter_try_served)
  then show ?L
    unfolding onRequest_chapter_def if_not_P [OF nb]
    by (simp add: chapterNum_of_def)
qed

subsection \<open>The outcomes of a request\<close>

lemma error_response:
  "json_response st (error_body msg) []
     = \<lparr>status = st, body = Json (JObj [(''error'', JStr msg)]),
        headers = [(''Content-Type'', ''application/json'')]\<rparr>"
  by (simp add: json_response_def error_body_def)

lemma onRequest_chapter_get_throws:
  "2 \<le> length (pathParts p) \<Longrightarrow> bucket_get b (webtoon_key p) = Throws msg \<Longrightarrow>
     fst (onRequest_chapter chk env race b p) = json_response 500 (error_body msg) []"
  by (simp add: onRequest_chapter_def chapter_try_def webtoon_key_def)

lemma onRequest_chapter_status:
  "status (fst (onRequest_chapter chk env race b p)) \<in> {200, 400, 404, 500}"
proof (cases "length (pathParts p) < 2")
  case True
  then show ?thesis by (simp add: onRequest_chapter_short)
next
  case False
  then have "2 \<le> length (pathParts p)" by simp
  from onRequest_chapter_cases [OF this, of chk env race b] show ?thesis
    by (elim disjE exE conjE) simp_all
qed

lemma onRequest_chapter_400_iff:
  "status (fst (onRequest_chapter chk env race b p)) = 400 \<longleftrightarrow> length (pathParts p) < 2"
proof (cases "length (pathParts p) < 2")
  case True
  then show ?thesis by (simp add: onRequest_chapter_short)
next
  case False
  then have "2 \<le> length (pathParts p)" by simp
  from onRequest_chapter_cases [OF this, of chk env race b] False show ?thesis
    by (elim disjE exE conjE) simp_all
qed

lemma onRequest_chapter_404_iff:
  "status (fst (onRequest_chapter chk env race b p)) = 404 \<longleftrightarrow>
     2 \<le> length (pathParts p)
     \<and> (bucket_get b (webtoon_key p) = Absent
        \<or> (\<exists>obj meta ch. bucket_get b (webtoon_key p) = Present obj \<and> obj_json obj = Inr meta
              \<and> chapter_of env meta (chapterNum_of env p) = Inr ch \<and> \<not> truthy env ch))"
proof (cases "length (pathParts p) < 2")
  case True
  then show ?thesis by (simp add: onRequest_chapter_short)
next
  case False
  then have two: "2 \<le> length (pathParts p)" by simp
  show ?thesis
  proof
    assume "status (fst (onRequest_chapter chk env race b p)) = 404"
    with onRequest_chapter_cases [OF two, of chk env race b] two
    show "2 \<le> length (pathParts p)
     \<and> (bucket_get b (webtoon_key p) = Absent
        \<or> (\<exists>obj meta ch. bucket_get b (webtoon_key p) = Present obj \<and> obj_json obj = Inr meta
              \<and> chapter_of env meta (chapterNum_of env p) = Inr ch \<and> \<not> truthy env ch))"
      by (elim disjE exE conjE) auto
  next
    assume "2 \<le> length (pathParts p)
     \<and> (bucket_get b (webtoon_key p) = Absent
        \<or> (\<exists>obj meta ch. bucket_get b (webtoon_key p) = Present obj \<and> obj_json obj = Inr meta
              \<and> chapter_of env meta (chapterNum_of env p) = Inr ch \<and> \<not> truthy env ch))"
    then show "status (fst (onRequest_chapter chk env race b p)) = 404"
      by (auto simp: onRequest_chapter_no_webtoon onRequest_chapter_no_chapter)
  qed
qed

lemma onRequest_chapter_500:
  assumes "status (fst (onRequest_chapter chk env race b p)) = 500"
  shows "\<exists>msg. fst (onRequest_chapter chk env race b p) = json_response 500 (error_body msg) []"
proof (cases "length (pathParts p) < 2")
  case True
  with assms show ?thesis by (simp add: onRequest_chapter_short)
next
  case False
  then have "2 \<le> length (pathParts p)" by simp
  from onRequest_chapter_cases [OF this, of chk env race b] assms show ?thesis
    by (elim disjE exE conjE) (simp_all, blast)
qed

lemma onRequest_chapter_200:
  assumes "status (fst (onRequest_chapter chk env race b p)) = 200"
  shows "headers (fst (onRequest_chapter chk env race b p))
           = [(''Content-Type'', ''application/json''), (''Cache-Control'', ''public, max-age=300'')]
       \<and> (\<exists>payload. body (fst (onRequest_chapter chk env race b p)) = Json payload
            \<and> field payload ''webtoon_id'' = Some (JStr (pathParts p ! 0))
            \<and> field payload ''chapter_number'' = Some (JNum (chapterNum_of env p)))"
proof (cases "length (pathParts p) < 2")
  case True
  with assms show ?thesis by (simp add: onRequest_chapter_short)
next
  case False
  then have "2 \<le> length (pathParts p)" by simp
  from onRequest_chapter_cases [OF this, of chk env race b] assms
  obtain meta ch sd checks payload where
      r: "fst (onRequest_chapter chk env race b p)
            = json_response 200 payload [(''Cache-Control'', ''public, max-age=300'')]"
    and pl: "chapter_payload env (pathParts p ! 0) (chapterNum_of env p) meta ch sd checks
               = Inr payload"
    by (elim disjE exE conjE) simp_all
  from chapter_payload_head [OF pl] show ?thesis
    unfolding r by (simp add: json_response_def)
qed

lemma served_response:
  "json_response 200 payload [(''Cache-Control'', ''public, max-age=300'')]
     = \<lparr>status = 200, body = Json payload,
        headers = [(''Content-Type'', ''application/json''),
                   (''Cache-Control'', ''public, max-age=300'')]\<rparr>"
  by (simp add: json_response_def)

text \<open>
  Claim C10.  For either version \<open>h\<close> of the chapter handler, with its image check \<open>chk\<close>:

  \<^item> a path of fewer than two parts is answered with status 400 and body
    \<open>{"error": "Invalid path"}\<close>, with no bucket operation, and status 400 arises in no
    other way;
  \<^item> the status is always one of 200, 400, 404 and 500;
  \<^item> with two parts or more, the answer is status 404 with body
    \<open>{"error": "Webtoon not found"}\<close> when \<open>webtoon.json\<close> is absent, and status 404 with body
    \<open>{"error": "Chapter not found"}\<close> whenever the chapter looked up is falsy: when the
    metadata has no \<open>chapters\<close>, when \<open>chapters\<close> is an array in which the chapter number
    denotes no position, and when the element at its position is falsy (\<open>null\<close>, say);
    in each case the one bucket operation is the \<open>get\<close> of \<open>webtoon.json\<close>; and status 404
    arises in no other way;
  \<^item> when the chapter number denotes a well-formed chapter and no \<open>head\<close> rejects, the
    answer is status 200 with the payload written out in \<open>expected_payload\<close> and the two
    headers;
  \<^item> the status is 200 exactly when the metadata is read, the chapter looked up is
    truthy, its segments are collected and every image check resolves; a 200 response
    has the two headers and a payload with the webtoon id and the chapter number of the
    request;
  \<^item> every other outcome is status 500 with body \<open>{"error": message}\<close>; a \<open>get\<close> that
    rejects gives its message.
\<close>

theorem chapter_outcomes:
  assumes "h = onRequest_chapter_v1 \<and> chk = imageCheck_v1
             \<and> found = found_v1 \<and> settle = heads_settle_v1
         \<or> h = onRequest_chapter_v2 \<and> chk = imageCheck_v2
             \<and> found = found_v2 \<and> settle = heads_settle_v2"
  shows
  "(length (pathParts p) < 2 \<longrightarrow>
      h env race b p
        = (\<lparr>status = 400, body = Json (JObj [(''error'', JStr ''Invalid path'')]),
            headers = [(''Content-Type'', ''application/json'')]\<rparr>, {#}))
   \<and> (status (fst (h env race b p)) = 400 \<longleftrightarrow> length (pathParts p) < 2)
   \<and> status (fst (h env race b p)) \<in> {200, 400, 404, 500}
   \<and> (2 \<le> length (pathParts p) \<and> bucket_get b (webtoon_key p) = Absent \<longrightarrow>
        h env race b p
          = (\<lparr>status = 404, body = Json (JObj [(''error'', JStr ''Webtoon not found'')]),
              headers = [(''Content-Type'', ''application/json'')]\<rparr>,
             {#Get (webtoon_key p)#}))
   \<and> (2 \<le> length (pathParts p) \<and> bucket_get b (webtoon_key p) = Present obj
        \<and> obj_json obj = Inr meta \<and> chapter_of env meta (chapterNum_of env p) = Inr ch
        \<and> \<not> truthy env ch \<longrightarrow>
        h env race b p
          = (\<lparr>status = 404, body = Json (JObj [(''error'', JStr ''Chapter not found'')]),
              headers = [(''Content-Type'', ''application/json'')]\<rparr>,
             {#Get (webtoon_key p)#}))
   \<and> (2 \<le> length (pathParts p) \<and> bucket_get b (webtoon_key p) = Present obj
        \<and> obj_json obj = Inr (JObj ps) \<and> map_of ps ''chapters'' = None \<longrightarrow>
        h env race b p
          = (\<lparr>status = 404, body = Json (JObj [(''error'', JStr ''Chapter not found'')]),
              headers = [(''Content-Type'', ''application/json'')]\<rparr>,
             {#Get (webtoon_key p)#}))
   \<and> (2 \<le> length (pathParts p) \<and> bucket_get b (webtoon_key p) = Present obj
        \<and> obj_json obj = Inr (JObj ps) \<and> map_of ps ''chapters'' = Some (JArr chs)
        \<and> (chapter_position env (length chs) (chapterNum_of env p) = None
            \<or> (\<exists>i. chapter_position env (length chs) (chapterNum_of env p) = Some i
                  \<and> \<not> truthy env (chs ! i))) \<longrightarrow>
        h env race b p
          = (\<lparr>status = 404, body = Json (JObj [(''error'', JStr ''Chapter not found'')]),
              headers = [(''Content-Type'', ''application/json'')]\<rparr>,
             {#Get (webtoon_key p)#}))
   \<and> (status (fst (h env race b p)) = 404 \<longleftrightarrow>
        2 \<le> length (pathParts p)
        \<and> (bucket_get b (webtoon_key p) = Absent
           \<or> (\<exists>obj meta ch. bucket_get b (webtoon_key p) = Present obj \<and> obj_json obj = Inr meta
                 \<and> chapter_of env meta (chapterNum_of env p) = Inr ch \<and> \<not> truthy env ch)))
   \<and> (2 \<le> length (pathParts p) \<and> bucket_get b (webtoon_key p) = Present obj
        \<and> obj_json obj = Inr (JObj ps) \<and> map_of ps ''chapters'' = Some (JArr chs)
        \<and> chapter_position env (length chs) (chapterNum_of env p) = Some i
        \<and> well_formed_chapter (chs ! i)
        \<and> settle env b (pathParts p ! 0) (chapterNum_of env p) (chs ! i) \<longrightarrow>
        fst (h env race b p)
          = \<lparr>status = 200,
             body = Json (expected_payload env (pathParts p ! 0) (chapterNum_of env p)
                            (JObj ps) chs (chs ! i)
                            (found env b (pathParts p ! 0) (chapterNum_of env p))),
             headers = [(''Content-Type'', ''application/json''),
                        (''Cache-Control'', ''public, max-age=300'')]\<rparr>)
   \<and> (status (fst (h env race b p)) = 200 \<longleftrightarrow>
        2 \<le> length (pathParts p)
        \<and> (\<exists>obj meta ch sd.
             bucket_get b (webtoon_key p) = Present obj \<and> obj_json obj = Inr meta
             \<and> chapter_of env meta (chapterNum_of env p) = Inr ch \<and> truthy env ch
             \<and> segmentData env ch = Inr sd
             \<and> list_all (\<lambda>(segment, scene).
                  \<exists>c. fst (chk env b (pathParts p ! 0) (chapterNum_of env p) segment) = Resolved c)
                  sd))
   \<and> (status (fst (h env race b p)) = 200 \<longrightarrow>
        headers (fst (h env race b p))
          = [(''Content-Type'', ''application/json''), (''Cache-Control'', ''public, max-age=300'')]
        \<and> (\<exists>payload. body (fst (h env race b p)) = Json payload
             \<and> field payload ''webtoon_id'' = Some (JStr (pathParts p ! 0))
             \<and> field payload ''chapter_number'' = Some (JNum (chapterNum_of env p))))
   \<and> (2 \<le> length (pathParts p) \<and> bucket_get b (webtoon_key p) = Throws msg \<longrightarrow>
        fst (h env race b p)
          = \<lparr>status = 500, body = Json (JObj [(''error'', JStr msg)]),
             headers = [(''Content-Type'', ''application/json'')]\<rparr>)
   \<and> (status (fst (h env race b p)) = 500 \<longrightarrow>
        (\<exists>e. fst (h env race b p)
               = \<lparr>status = 500, body = Json (JObj [(''error'', JStr e)]),
                  headers = [(''Content-Type'', ''application/json'')]\<rparr>))"
  (is "?A \<and> ?B \<and> ?C \<and> ?D \<and> ?E \<and> ?F \<and> ?G \<and> ?H \<and> ?I \<and> ?J \<and> ?K \<and> ?L \<and> ?M")
proof -
  have h: "h = onRequest_chapter chk"
    using assms by (auto simp: onRequest_chapter_v1_def onRequest_chapter_v2_def)
  have resolved: "\<And>sg c. fst (chk env b (pathParts p ! 0) (chapterNum_of env p) sg) = Resolved c
                  \<Longrightarrow> sg \<noteq> JNull \<and> sg \<noteq> JUndef"
    using assms by (auto dest: imageCheck_v1_resolved imageCheck_v2_resolved)
  have found_id: "\<And>sg sg'. own sg ''id'' = own sg' ''id''
        \<Longrightarrow> found env b (pathParts p ! 0) (chapterNum_of env p) sg
            = found env b (pathParts p ! 0) (chapterNum_of env p) sg'"
    using assms by (auto dest: found_same_id)
  have checks: "\<exists>c. fst (chk env b (pathParts p ! 0) (chapterNum_of env p) sg) = Resolved c
              \<and> check_id c = own sg ''id''
              \<and> check_exists c = (found env b (pathParts p ! 0) (chapterNum_of env p) sg \<noteq> None)
              \<and> (check_exists c \<longrightarrow>
                    found env b (pathParts p ! 0) (chapterNum_of env p) sg = Some (check_path c))"
    if wf: "well_formed_chapter ch"
      and st: "settle env b (pathParts p ! 0) (chapterNum_of env p) ch"
      and mem: "(sg, sc) \<in> set (chapter_pairs ch)" for ch sg sc
  proof -
    from well_formed_pair [OF wf mem] have o: "is_object sg" and i: "has_string_id sg" by simp_all
    from assms show ?thesis
    proof (elim disjE conjE)
      assume v: "chk = imageCheck_v1" "found = found_v1" "settle = heads_settle_v1"
      from st mem have "\<not> rejects b (image_path env (pathParts p ! 0) (chapterNum_of env p) sg ''.jpg'')"
        unfolding v heads_settle_v1_def by (auto simp: list_all_iff)
      from imageCheck_v1_well_formed [OF o i this] show ?thesis
        unfolding v by (simp add: found_v1_def)
    next
      assume v: "chk = imageCheck_v2" "found = found_v2" "settle = heads_settle_v2"
      from st mem have
        "\<not> rejects b (image_path env (pathParts p ! 0) (chapterNum_of env p) sg ''.png'')"
        "stored b (image_path env (pathParts p ! 0) (chapterNum_of env p) sg ''.png'')
         \<or> \<not> rejects b (image_path env (pathParts p ! 0) (chapterNum_of env p) sg ''.jpg'')"
        unfolding v heads_settle_v2_def by (auto simp: list_all_iff)
      from imageCheck_v2_well_formed [OF o i this] show ?thesis
        unfolding v by (auto simp: found_v2_def)
    qed
  qed
  have A: ?A unfolding h by (simp add: onRequest_chapter_short error_response)
  have B: ?B unfolding h by (rule onRequest_chapter_400_iff)
  have C: ?C unfolding h by (rule onRequest_chapter_status)
  have D: ?D unfolding h by (simp add: onRequest_chapter_no_webtoon error_response)
  have E: ?E
    unfolding h using onRequest_chapter_no_chapter [of p b obj meta env ch chk race]
    by (simp add: error_response)
  have F: ?F
    unfolding h using onRequest_chapter_no_chapter [OF _ _ _ chapter_of_no_chapters not_truthy_undef,
            of p b obj ps chk env race]
    by (simp add: error_response)
  have G: ?G
    unfolding h
  proof (intro impI, elim conjE disjE exE)
    assume "2 \<le> length (pathParts p)" "bucket_get b (webtoon_key p) = Present obj"
      "obj_json obj = Inr (JObj ps)" "map_of ps ''chapters'' = Some (JArr chs)"
      "chapter_position env (length chs) (chapterNum_of env p) = None"
    from onRequest_chapter_no_chapter [OF this(1,2,3) chapter_of_array_none [OF this(4,5)]
           not_truthy_undef]
    show "onRequest_chapter chk env race b p
          = (\<lparr>status = 404, body = Json (JObj [(''error'', JStr ''Chapter not found'')]),
              headers = [(''Content-Type'', ''application/json'')]\<rparr>,
             {#Get (webtoon_key p)#})"
      by (simp add: error_response)
  next
    fix j
    assume "2 \<le> length (pathParts p)" "bucket_get b (webtoon_key p) = Present obj"
      "obj_json obj = Inr (JObj ps)" "map_of ps ''chapters'' = Some (JArr chs)"
      "chapter_position env (length chs) (chapterNum_of env p) = Some j"
      "\<not> truthy env (chs ! j)"
    from onRequest_chapter_no_chapter [OF this(1,2,3) chapter_of_array_some [OF this(4,5)]
           this(6)]
    show "onRequest_chapter chk env race b p
          = (\<lparr>status = 404, body = Json (JObj [(''error'', JStr ''Chapter not found'')]),
              headers = [(''Content-Type'', ''application/json'')]\<rparr>,
             {#Get (webtoon_key p)#})"
      by (simp add: error_response)
  qed
  have H: ?H unfolding h by (rule onRequest_chapter_404_iff)
  have I: ?I
    unfolding h
  proof (intro impI, elim conjE)
    assume a: "2 \<le> length (pathParts p)" "bucket_get b (webtoon_key p) = Present obj"
      "obj_json obj = Inr (JObj ps)" "map_of ps ''chapters'' = Some (JArr chs)"
      "chapter_position env (length chs) (chapterNum_of env p) = Some i"
      and wf: "well_formed_chapter (chs ! i)"
      and st: "settle env b (pathParts p ! 0) (chapterNum_of env p) (chs ! i)"
    show "fst (onRequest_chapter chk env race b p)
          = \<lparr>status = 200,
             body = Json (expected_payload env (pathParts p ! 0) (chapterNum_of env p)
                            (JObj ps) chs (chs ! i)
                            (found env b (pathParts p ! 0) (chapterNum_of env p))),
             headers = [(''Content-Type'', ''application/json''),
                        (''Cache-Control'', ''public, max-age=300'')]\<rparr>"
      using a wf
    proof (rule onRequest_chapter_well_formed)
      fix sg sc assume "(sg, sc) \<in> set (chapter_pairs (chs ! i))"
      with wf st show "\<exists>c. fst (chk env b (pathParts p ! 0) (chapterNum_of env p) sg) = Resolved c
              \<and> check_id c = own sg ''id''
              \<and> check_exists c = (found env b (pathParts p ! 0) (chapterNum_of env p) sg \<noteq> None)
              \<and> (check_exists c \<longrightarrow>
                    found env b (pathParts p ! 0) (chapterNum_of env p) sg = Some (check_path c))"
        by (rule checks)
    next
      fix sg sg' :: "'a jv" assume "own sg ''id'' = own sg' ''id''"
      then show "found env b (pathParts p ! 0) (chapterNum_of env p) sg
            = found env b (pathParts p ! 0) (chapterNum_of env p) sg'"
        by (rule found_id)
    qed
  qed
  have J: ?J unfolding h using resolved by (rule onRequest_chapter_served_iff)
  have K: ?K unfolding h using onRequest_chapter_200 [of chk env race b p] by blast
  have L: ?L
    unfolding h using onRequest_chapter_get_throws [of p b msg chk env race] by (simp add: error_response)
  have M: ?M
    unfolding h using onRequest_chapter_500 [of chk env race b p] by (simp add: error_response)
  from A B C D E F G H I J K L M show ?thesis by (intro conjI)
qed
text \<open>
  The theorem at requests to \<open>jpg_bucket\<close> and \<open>failing_bucket\<close>, for the first version:
  \<open>w1\<close> alone is an invalid path (400, no bucket operation); webtoon \<open>w2\<close> is not
  stored (404); \<open>w3\<close> has no chapters, chapter 2 of \<open>w1\<close> is beyond its one chapter and
  chapter 1 of \<open>w4\<close> is \<open>null\<close> (404 each); chapter 1 of \<open>w1\<close> is served with its two
  segments, of which \<open>p1\<close> has an image (200); and a bucket whose \<open>get\<close> rejects gives 500
  with the message.
\<close>

theorem chapter_outcomes_witness:
  "onRequest_chapter_v1 int_env (\<lambda>es. 0) jpg_bucket (PathArray [''w1''])
     = (\<lparr>status = 400, body = Json (JObj [(''error'', JStr ''Invalid path'')]),
         headers = [(''Content-Type'', ''application/json'')]\<rparr>, {#})
   \<and> onRequest_chapter_v1 int_env (\<lambda>es. 0) jpg_bucket (PathArray [''w2'', ''1''])
     = (\<lparr>status = 404, body = Json (JObj [(''error'', JStr ''Webtoon not found'')]),
         headers = [(''Content-Type'', ''application/json'')]\<rparr>,
        {#Get ''w2/webtoon.json''#})
   \<and> onRequest_chapter_v1 int_env (\<lambda>es. 0) jpg_bucket (PathArray [''w3'', ''1''])
     = (\<lparr>status = 404, body = Json (JObj [(''error'', JStr ''Chapter not found'')]),
         headers = [(''Content-Type'', ''application/json'')]\<rparr>,
        {#Get ''w3/webtoon.json''#})
   \<and> onRequest_chapter_v1 int_env (\<lambda>es. 0) jpg_bucket (PathString ''w1/2'')
     = (\<lparr>status = 404, body = Json (JObj [(''error'', JStr ''Chapter not found'')]),
         headers = [(''Content-Type'', ''application/json'')]\<rparr>,
        {#Get ''w1/webtoon.json''#})
   \<and> onRequest_chapter_v1 int_env (\<lambda>es. 0) jpg_bucket (PathString ''w4/1'')
     = (\<lparr>status = 404, body = Json (JObj [(''error'', JStr ''Chapter not found'')]),
         headers = [(''Content-Type'', ''application/json'')]\<rparr>,
        {#Get ''w4/webtoon.json''#})
   \<and> fst (onRequest_chapter_v1 int_env (\<lambda>es. 0) jpg_bucket (PathString ''w1/1''))
     = \<lparr>status = 200,
        body = Json (JObj
          [(''webtoon_id'', JStr ''w1''),
           (''webtoon_title'', JStr ''Ghost Girl''),
           (''chapter_number'', JNum (Some 1)),
           (''chapter_title'', JStr ''One''),
           (''chapter_summary'', JStr ''Mina sees a ghost''),
           (''total_chapters'', JNum (Some 1)),
           (''segments'',
            JArr [JObj [(''id'', JStr ''p1''), (''sequence'', JNum (Some 1)),
                        (''type'', JUndef), (''description'', JUndef),
                        (''characters'', JUndef), (''dialogues'', JUndef),
                        (''narration'', JUndef), (''sfx'', JUndef), (''shot_type'', JUndef),
                        (''mood'', JUndef), (''scroll_pacing'', JUndef),
                        (''height_hint'', JUndef),
                        (''scene_id'', JStr ''s1''), (''scene_title'', JStr ''School''),
                        (''image_url'', JStr ''/api/image/w1/assets/chapters/ch1/p1.jpg''),
                        (''has_image'', JBool True)],
                  JObj [(''id'', JStr ''p2''), (''sequence'', JNum (Some 2)),
                        (''type'', JUndef), (''description'', JUndef),
                        (''characters'', JUndef), (''dialogues'', JUndef),
                        (''narration'', JUndef), (''sfx'', JUndef), (''shot_type'', JUndef),
                        (''mood'', JUndef), (''scroll_pacing'', JUndef),
                        (''height_hint'', JUndef),
                        (''scene_id'', JStr ''s1''), (''scene_title'', JStr ''School''),
                        (''image_url'', JNull),
                        (''has_image'', JBool False)]])]),
        headers = [(''Content-Type'', ''application/json''),
                   (''Cache-Control'', ''public, max-age=300'')]\<rparr>
   \<and> (\<exists>payload. body (fst (onRequest_chapter_v1 int_env (\<lambda>es. 0) jpg_bucket
                               (PathString ''w1/1''))) = Json payload
         \<and> field payload ''webtoon_id'' = Some (JStr ''w1'')
         \<and> field payload ''chapter_number'' = Some (JNum (Some 1)))
   \<and> fst (onRequest_chapter_v1 int_env (\<lambda>es. 0) failing_bucket (PathString ''w1/1''))
     = \<lparr>status = 500, body = Json (JObj [(''error'', JStr ''R2 unavailable'')]),
        headers = [(''Content-Type'', ''application/json'')]\<rparr>
   \<and> (\<exists>e. fst (onRequest_chapter_v1 int_env (\<lambda>es. 0) failing_bucket (PathString ''w1/1''))
            = \<lparr>status = 500, body = Json (JObj [(''error'', JStr e)]),
               headers = [(''Content-Type'', ''application/json'')]\<rparr>)"
proof -
  have v: "(onRequest_chapter_v1 :: int option js_env \<Rightarrow> _) = onRequest_chapter_v1
             \<and> (imageCheck_v1 :: int option js_env \<Rightarrow> _) = imageCheck_v1
             \<and> (found_v1 :: int option js_env \<Rightarrow> _) = found_v1
             \<and> (heads_settle_v1 :: int option js_env \<Rightarrow> _) = heads_settle_v1
           \<or> (onRequest_chapter_v1 :: int option js_env \<Rightarrow> _) = onRequest_chapter_v2
             \<and> (imageCheck_v1 :: int option js_env \<Rightarrow> _) = imageCheck_v2
             \<and> (found_v1 :: int option js_env \<Rightarrow> _) = found_v2
             \<and> (heads_settle_v1 :: int option js_env \<Rightarrow> _) = heads_settle_v2"
    by simp
  note T = chapter_outcomes [OF v, where env = int_env and race = "\<lambda>es. 0"]
  note c2 = conjunct2
  have parts: "pathParts (PathArray [''w1'']) = [''w1'']"
      "pathParts (PathArray [''w2'', ''1'']) = [''w2'', ''1'']"
      "pathParts (PathArray [''w3'', ''1'']) = [''w3'', ''1'']"
      "pathParts (PathString ''w1/2'') = [''w1'', ''2'']"
      "pathParts (PathString ''w4/1'') = [''w4'', ''1'']"
      "pathParts (PathString ''w1/1'') = [''w1'', ''1'']"
    by (simp_all add: pathParts_def)
  have nums: "chapterNum_of int_env (PathString ''w1/2'') = Some 2"
      "chapterNum_of int_env (PathString ''w4/1'') = Some 1"
      "chapterNum_of int_env (PathString ''w1/1'') = Some 1"
    by (simp_all add: chapterNum_of_def parts int_env_def int_parseInt_def parse_digits_def
          is_digit_def digits_value_def)
  have positions: "chapter_position int_env (Suc 0) (Some 2) = None"
      "chapter_position int_env (Suc 0) (Some 1) = Some 0"
    by (simp_all add: int_chapter_position)
  \<comment> \<open>400\<close>
  have short: "length (pathParts (PathArray [''w1''])) < 2"
    by (simp add: parts)
  note r1 = T [THEN conjunct1, THEN mp, OF short]
  \<comment> \<open>404, no webtoon\<close>
  have len2: "2 \<le> length (pathParts (PathArray [''w2'', ''1'']))"
    by (simp add: parts)
  have absent: "bucket_get jpg_bucket (webtoon_key (PathArray [''w2'', ''1''])) = Absent"
    by (simp add: jpg_bucket_def webtoon_key_def parts)
  have r2: "onRequest_chapter_v1 int_env (\<lambda>es. 0) jpg_bucket (PathArray [''w2'', ''1''])
     = (\<lparr>status = 404, body = Json (JObj [(''error'', JStr ''Webtoon not found'')]),
         headers = [(''Content-Type'', ''application/json'')]\<rparr>,
        {#Get ''w2/webtoon.json''#})"
    using T [THEN c2, THEN c2, THEN c2, THEN conjunct1, THEN mp, OF conjI [OF len2 absent]]
    by (simp add: webtoon_key_def parts)
  \<comment> \<open>404, no chapters\<close>
  have len3: "2 \<le> length (pathParts (PathArray [''w3'', ''1'']))"
    by (simp add: parts)
  have bare: "bucket_get jpg_bucket (webtoon_key (PathArray [''w3'', ''1''])) = Present bare_object"
    by (simp add: jpg_bucket_def webtoon_key_def parts)
  have bare_json: "obj_json bare_object = Inr (JObj [(''title'', JStr ''Bare'')])"
    by (simp add: bare_object_def)
  have no_chapters: "map_of [(''title'', JStr ''Bare'' :: int option jv)] ''chapters'' = None"
    by simp
  have r3: "onRequest_chapter_v1 int_env (\<lambda>es. 0) jpg_bucket (PathArray [''w3'', ''1''])
     = (\<lparr>status = 404, body = Json (JObj [(''error'', JStr ''Chapter not found'')]),
         headers = [(''Content-Type'', ''application/json'')]\<rparr>,
        {#Get ''w3/webtoon.json''#})"
    using T [THEN c2, THEN c2, THEN c2, THEN c2, THEN c2, THEN conjunct1, THEN mp,
             OF conjI [OF len3 conjI [OF bare conjI [OF bare_json no_chapters]]]]
    by (simp add: webtoon_key_def parts)
  \<comment> \<open>404, beyond the last chapter\<close>
  have len4: "2 \<le> length (pathParts (PathString ''w1/2''))"
    by (simp add: parts)
  have present4: "bucket_get jpg_bucket (webtoon_key (PathString ''w1/2'')) = Present demo_object"
    by (simp add: jpg_bucket_def webtoon_key_def parts)
  have json: "obj_json demo_object
                = Inr (JObj [(''title'', JStr ''Ghost Girl''), (''chapters'', JArr [demo_chapter])])"
    by (simp add: demo_object_def demo_meta_def)
  have chapters: "map_of [(''title'', JStr ''Ghost Girl''), (''chapters'', JArr [demo_chapter])]
                    ''chapters'' = Some (JArr [demo_chapter])"
    by simp
  have beyond: "chapter_position int_env (length [demo_chapter])
                  (chapterNum_of int_env (PathString ''w1/2'')) = None
                \<or> (\<exists>i. chapter_position int_env (length [demo_chapter])
                          (chapterNum_of int_env (PathString ''w1/2'')) = Some i
                      \<and> \<not> truthy int_env ([demo_chapter] ! i))"
    by (simp add: nums positions)
  have r4: "onRequest_chapter_v1 int_env (\<lambda>es. 0) jpg_bucket (PathString ''w1/2'')
     = (\<lparr>status = 404, body = Json (JObj [(''error'', JStr ''Chapter not found'')]),
         headers = [(''Content-Type'', ''application/json'')]\<rparr>,
        {#Get ''w1/webtoon.json''#})"
    using T [THEN c2, THEN c2, THEN c2, THEN c2, THEN c2, THEN c2, THEN conjunct1, THEN mp,
             OF conjI [OF len4 conjI [OF present4 conjI [OF json conjI [OF chapters beyond]]]]]
    by (simp add: webtoon_key_def parts)
  \<comment> \<open>404, a chapter that is null\<close>
  have len5: "2 \<le> length (pathParts (PathString ''w4/1''))"
    by (simp add: parts)
  have present5: "bucket_get jpg_bucket (webtoon_key (PathString ''w4/1'')) = Present gap_object"
    by (simp add: jpg_bucket_def webtoon_key_def parts)
  have json5: "obj_json gap_object
                 = Inr (JObj [(''title'', JStr ''Gap''), (''chapters'', JArr [JNull])])"
    by (simp add: gap_object_def)
  have null_chapter: "chapter_of int_env (JObj [(''title'', JStr ''Gap''), (''chapters'', JArr [JNull])])
                        (chapterNum_of int_env (PathString ''w4/1'')) = Inr JNull"
    using chapter_of_array_some [of "[(''title'', JStr ''Gap''), (''chapters'', JArr [JNull])]"
            "[JNull]" int_env "Some 1" 0]
    by (simp add: nums positions)
  have falsy: "\<not> truthy int_env JNull"
    by (simp add: truthy_def)
  have r5: "onRequest_chapter_v1 int_env (\<lambda>es. 0) jpg_bucket (PathString ''w4/1'')
     = (\<lparr>status = 404, body = Json (JObj [(''error'', JStr ''Chapter not found'')]),
         headers = [(''Content-Type'', ''application/json'')]\<rparr>,
        {#Get ''w4/webtoon.json''#})"
    using T [THEN c2, THEN c2, THEN c2, THEN c2, THEN conjunct1, THEN mp,
             OF conjI [OF len5 conjI [OF present5 conjI [OF json5 conjI [OF null_chapter falsy]]]]]
    by (simp add: webtoon_key_def parts)
  \<comment> \<open>200\<close>
  have len6: "2 \<le> length (pathParts (PathString ''w1/1''))"
    by (simp add: parts)
  have present6: "bucket_get jpg_bucket (webtoon_key (PathString ''w1/1'')) = Present demo_object"
    by (simp add: jpg_bucket_def webtoon_key_def parts)
  have position: "chapter_position int_env (length [demo_chapter])
                    (chapterNum_of int_env (PathString ''w1/1'')) = Some 0"
    by (simp add: nums positions)
  have pairs: "chapter_pairs demo_chapter
      = [(JObj [(''id'', JStr ''p1''), (''sequence'', JNum (Some 1))],
          JObj [(''id'', JStr ''s1''), (''title'', JStr ''School''),
                (''segments'',
                 JArr [JObj [(''id'', JStr ''p1''), (''sequence'', JNum (Some 1))],
                       JObj [(''id'', JStr ''p2''), (''sequence'', JNum (Some 2))]])]),
         (JObj [(''id'', JStr ''p2''), (''sequence'', JNum (Some 2))],
          JObj [(''id'', JStr ''s1''), (''title'', JStr ''School''),
                (''segments'',
                 JArr [JObj [(''id'', JStr ''p1''), (''sequence'', JNum (Some 1))],
                       JObj [(''id'', JStr ''p2''), (''sequence'', JNum (Some 2))]])])]"
    by (simp add: chapter_pairs_def demo_chapter_def own_def items_def)
  have wf: "well_formed_chapter ([demo_chapter] ! 0)"
    by (simp add: well_formed_chapter_def demo_chapter_def own_def items_def is_object_def
          absent_or_objects_def has_string_id_def)
  have paths: "image_path int_env ''w1'' (Some 1)
                 (JObj [(''id'', JStr ''p1''), (''sequence'', JNum (Some 1))]) ''.jpg''
                 = ''w1/assets/chapters/ch1/p1.jpg''"
      "image_path int_env ''w1'' (Some 1)
                 (JObj [(''id'', JStr ''p2''), (''sequence'', JNum (Some 2))]) ''.jpg''
                 = ''w1/assets/chapters/ch1/p2.jpg''"
    by code_simp+
  have settle: "heads_settle_v1 int_env jpg_bucket (pathParts (PathString ''w1/1'') ! 0)
                  (chapterNum_of int_env (PathString ''w1/1'')) ([demo_chapter] ! 0)"
    by (simp add: heads_settle_v1_def parts nums pairs paths rejects_def jpg_bucket_def)
  have found: "found_v1 int_env jpg_bucket ''w1'' (Some 1)
                 (JObj [(''id'', JStr ''p1''), (''sequence'', JNum (Some 1))])
                 = Some ''w1/assets/chapters/ch1/p1.jpg''"
      "found_v1 int_env jpg_bucket ''w1'' (Some 1)
                 (JObj [(''id'', JStr ''p2''), (''sequence'', JNum (Some 2))]) = None"
    by (simp_all add: found_v1_def paths stored_def jpg_bucket_def)
  have payload: "expected_payload int_env ''w1'' (Some 1)
                   (JObj [(''title'', JStr ''Ghost Girl''), (''chapters'', JArr [demo_chapter])])
                   [demo_chapter] demo_chapter (found_v1 int_env jpg_bucket ''w1'' (Some 1))
      = JObj
          [(''webtoon_id'', JStr ''w1''),
           (''webtoon_title'', JStr ''Ghost Girl''),
           (''chapter_number'', JNum (Some 1)),
           (''chapter_title'', JStr ''One''),
           (''chapter_summary'', JStr ''Mina sees a ghost''),
           (''total_chapters'', JNum (Some 1)),
           (''segments'',
            JArr [JObj [(''id'', JStr ''p1''), (''sequence'', JNum (Some 1)),
                        (''type'', JUndef), (''description'', JUndef),
                        (''characters'', JUndef), (''dialogues'', JUndef),
                        (''narration'', JUndef), (''sfx'', JUndef), (''shot_type'', JUndef),
                        (''mood'', JUndef), (''scroll_pacing'', JUndef),
                        (''height_hint'', JUndef),
                        (''scene_id'', JStr ''s1''), (''scene_title'', JStr ''School''),
                        (''image_url'', JStr ''/api/image/w1/assets/chapters/ch1/p1.jpg''),
                        (''has_image'', JBool True)],
                  JObj [(''id'', JStr ''p2''), (''sequence'', JNum (Some 2)),
                        (''type'', JUndef), (''description'', JUndef),
                        (''characters'', JUndef), (''dialogues'', JUndef),
                        (''narration'', JUndef), (''sfx'', JUndef), (''shot_type'', JUndef),
                        (''mood'', JUndef), (''scroll_pacing'', JUndef),
                        (''height_hint'', JUndef),
                        (''scene_id'', JStr ''s1''), (''scene_title'', JStr ''School''),
                        (''image_url'', JNull),
                        (''has_image'', JBool False)]])]"
  proof -
    have count: "num_of_nat int_env (length [demo_chapter]) = Some 1"
        "num_truthy int_env (Some 1)"
      by (simp_all add: int_env_def)
    show ?thesis
      unfolding expected_payload_def pairs count(1)
      by (simp add: expected_segment_def found own_def demo_chapter_def count(2))
  qed
  have r6: "fst (onRequest_chapter_v1 int_env (\<lambda>es. 0) jpg_bucket (PathString ''w1/1''))
     = \<lparr>status = 200,
        body = Json (expected_payload int_env ''w1'' (Some 1)
                   (JObj [(''title'', JStr ''Ghost Girl''), (''chapters'', JArr [demo_chapter])])
                   [demo_chapter] demo_chapter (found_v1 int_env jpg_bucket ''w1'' (Some 1))),
        headers = [(''Content-Type'', ''application/json''),
                   (''Cache-Control'', ''public, max-age=300'')]\<rparr>"
    using T [THEN c2, THEN c2, THEN c2, THEN c2, THEN c2, THEN c2, THEN c2, THEN c2,
             THEN conjunct1, THEN mp,
             OF conjI [OF len6 conjI [OF present6 conjI [OF json conjI [OF chapters
                  conjI [OF position conjI [OF wf settle]]]]]]]
    by (simp add: parts nums)
  then have ok: "status (fst (onRequest_chapter_v1 int_env (\<lambda>es. 0) jpg_bucket
                                (PathString ''w1/1''))) = 200"
    by simp
  have r7: "\<exists>payload. body (fst (onRequest_chapter_v1 int_env (\<lambda>es. 0) jpg_bucket
                               (PathString ''w1/1''))) = Json payload
         \<and> field payload ''webtoon_id'' = Some (JStr ''w1'')
         \<and> field payload ''chapter_number'' = Some (JNum (Some 1))"
    using T [THEN c2, THEN c2, THEN c2, THEN c2, THEN c2, THEN c2, THEN c2, THEN c2,
             THEN c2, THEN c2, THEN conjunct1, THEN mp, OF ok, THEN c2]
    by (simp add: parts nums)
  \<comment> \<open>500\<close>
  have throws: "bucket_get failing_bucket (webtoon_key (PathString ''w1/1''))
                  = Throws ''R2 unavailable''"
    by (simp add: failing_bucket_def)
  note r8 = T [THEN c2, THEN c2, THEN c2, THEN c2, THEN c2, THEN c2, THEN c2, THEN c2,
             THEN c2, THEN c2, THEN c2, THEN conjunct1, THEN mp, OF conjI [OF len6 throws]]
  then have failed: "status (fst (onRequest_chapter_v1 int_env (\<lambda>es. 0) failing_bucket
                                    (PathString ''w1/1''))) = 500"
    by simp
  note r9 = T [THEN c2, THEN c2, THEN c2, THEN c2, THEN c2, THEN c2, THEN c2, THEN c2,
             THEN c2, THEN c2, THEN c2, THEN c2, THEN mp, OF failed]
  show ?thesis
    unfolding payload [symmetric]
    by (intro conjI r1 r2 r3 r4 r5 r6 r7 r8 r9)
qed

section \<open>The two versions of the chapter handler compared\<close>

lemma asset_path_ext:
  "asset_path env w n seg ext = Inr path \<Longrightarrow>
     \<exists>i s. member env seg ''id'' = Inr i \<and> to_string env i = Inr s
       \<and> path = w @ ''/assets/chapters/ch'' @ num_to_string env n @ ''/'' @ s @ ext
       \<and> (\<forall>ext'. asset_path env w n seg ext'
             = Inr (w @ ''/assets/chapters/ch'' @ num_to_string env n @ ''/'' @ s @ ext'))"
  by (auto simp: asset_path_def split: sum.splits)

lemma asset_path_error:
  "asset_path env w n seg ext = Inl e \<Longrightarrow> asset_path env w n seg ext' = Inl e"
  by (auto simp: asset_path_def split: sum.splits)

text \<open>Without a \<open>.png\<close> the check of the second version settles as that of the first.\<close>

lemma imageCheck_v2_no_png:
  assumes "\<And>pngPath. asset_path env w n seg ''.png'' = Inr pngPath \<Longrightarrow> bucket_head b pngPath = Absent"
  shows "fst (imageCheck_v2 env b w n seg) = fst (imageCheck_v1 env b w n seg)"
proof (cases "asset_path env w n seg ''.png''")
  case (Inl e)
  from asset_path_error [OF this, of "''.jpg''"] Inl show ?thesis
    by (simp add: imageCheck_v2_def imageCheck_v1_def)
next
  case (Inr pngPath)
  from asset_path_ext [OF Inr] obtain i s where
    "member env seg ''id'' = Inr i"
    "asset_path env w n seg ''.jpg''
       = Inr (w @ ''/assets/chapters/ch'' @ num_to_string env n @ ''/'' @ s @ ''.jpg'')"
    by blast
  with Inr assms [OF Inr] show ?thesis
    by (simp add: imageCheck_v2_def imageCheck_v1_def split: reply.splits)
qed

lemma imageCheck_v1_rejected:
  "fst (imageCheck_v1 env b w n seg) = Rejected e \<Longrightarrow>
     \<exists>q. asset_path env w n seg ''.jpg'' = Inr q \<and> bucket_head b q = Throws e"
  by (auto simp: imageCheck_v1_def asset_path_def split: sum.splits reply.splits)

text \<open>What \<open>Promise.all\<close> gives under two timings.\<close>

lemma rejections_mem: "e \<in> set (rejections rs) \<longleftrightarrow> Rejected e \<in> set rs"
proof (induction rs)
  case Nil
  then show ?case by simp
next
  case (Cons r rs)
  then show ?case by (cases r) auto
qed

lemma promise_all_races:
  "promise_all r1 rs = promise_all r2 rs
   \<or> (\<exists>e1 e2. promise_all r1 rs = Inl e1 \<and> promise_all r2 rs = Inl e2
         \<and> Rejected e1 \<in> set rs \<and> Rejected e2 \<in> set rs \<and> (r1 = r2 \<longrightarrow> e1 = e2))"
proof (cases "thrown rs")
  case (Cons e es)
  then show ?thesis by (simp add: promise_all_def)
next
  case Nil
  show ?thesis
  proof (cases "rejections rs")
    case Nil': Nil
    with Nil show ?thesis by (simp add: promise_all_def)
  next
    case (Cons e es)
    let ?es = "e # es"
    have "?es ! (r1 mod length ?es) \<in> set ?es" for r1
      by (rule nth_mem) simp
    then have "Rejected (?es ! (r1 mod length ?es)) \<in> set rs" for r1
      unfolding Cons [symmetric] rejections_mem .
    with Nil Cons show ?thesis by (simp add: promise_all_def)
  qed
qed

lemma fst_chapter_try:
  "fst (chapter_try chk env race b w n) =
     (case bucket_get b (w @ ''/webtoon.json'') of
        Throws msg \<Rightarrow> Inl msg
      | Absent \<Rightarrow> Inr (json_response 404 (error_body ''Webtoon not found'') [])
      | Present metaObj \<Rightarrow>
          (case obj_json metaObj of
             Inl msg \<Rightarrow> Inl msg
           | Inr meta \<Rightarrow>
               (case chapter_of env meta n of
                  Inl msg \<Rightarrow> Inl msg
                | Inr chapter \<Rightarrow>
                    if \<not> truthy env chapter
                    then Inr (json_response 404 (error_body ''Chapter not found'') [])
                    else
                      (case segmentData env chapter of
                         Inl msg \<Rightarrow> Inl msg
                       | Inr sd \<Rightarrow>
                           (case promise_all race
                                   (map (\<lambda>(segment, scene). fst (chk env b w n segment)) sd) of
                              Inl msg \<Rightarrow> Inl msg
                            | Inr imageChecks \<Rightarrow>
                                (case chapter_payload env w n meta chapter sd imageChecks of
                                   Inl msg \<Rightarrow> Inl msg
                                 | Inr payload \<Rightarrow>
                                     Inr (json_response 200 payload
                                            [(''Cache-Control'', ''public, max-age=300'')])))))))"
  unfolding chapter_try_def
  by (simp split: reply.splits sum.splits)

lemma fst_chapter_try_races:
  assumes same: "\<And>obj meta ch sd seg. bucket_get b (w @ ''/webtoon.json'') = Present obj \<Longrightarrow>
              obj_json obj = Inr meta \<Longrightarrow> chapter_of env meta n = Inr ch \<Longrightarrow> truthy env ch \<Longrightarrow>
              segmentData env ch = Inr sd \<Longrightarrow> seg \<in> fst ` set sd \<Longrightarrow>
              fst (chk1 env b w n seg) = fst (chk2 env b w n seg)"
  shows "fst (chapter_try chk1 env r1 b w n) = fst (chapter_try chk2 env r2 b w n)
       \<or> (\<exists>obj meta ch sd e1 e2 s1 s2.
             bucket_get b (w @ ''/webtoon.json'') = Present obj \<and> obj_json obj = Inr meta
           \<and> chapter_of env meta n = Inr ch \<and> truthy env ch \<and> segmentData env ch = Inr sd
           \<and> fst (chapter_try chk1 env r1 b w n) = Inl e1
           \<and> fst (chapter_try chk2 env r2 b w n) = Inl e2
           \<and> s1 \<in> fst ` set sd \<and> fst (chk1 env b w n s1) = Rejected e1
           \<and> s2 \<in> fst ` set sd \<and> fst (chk1 env b w n s2) = Rejected e2
           \<and> (r1 = r2 \<longrightarrow> e1 = e2))"
proof (cases "\<exists>obj meta ch sd. bucket_get b (w @ ''/webtoon.json'') = Present obj
                \<and> obj_json obj = Inr meta \<and> chapter_of env meta n = Inr ch \<and> truthy env ch
                \<and> segmentData env ch = Inr sd")
  case False
  then have "fst (chapter_try chk1 env r1 b w n) = fst (chapter_try chk2 env r2 b w n)"
    unfolding fst_chapter_try by (auto split: reply.splits sum.splits)
  then show ?thesis ..
next
  case True
  then obtain obj meta ch sd where
    st: "bucket_get b (w @ ''/webtoon.json'') = Present obj" "obj_json obj = Inr meta"
        "chapter_of env meta n = Inr ch" "truthy env ch" "segmentData env ch = Inr sd"
    by blast
  let ?L = "map (\<lambda>(segment, scene). fst (chk1 env b w n segment)) sd"
  have lists: "map (\<lambda>(segment, scene). fst (chk2 env b w n segment)) sd = ?L"
    using same [OF st] by (force simp: image_iff)
  have t1: "fst (chapter_try chk1 env r1 b w n) =
      (case promise_all r1 ?L of
         Inl msg \<Rightarrow> Inl msg
       | Inr imageChecks \<Rightarrow>
           (case chapter_payload env w n meta ch sd imageChecks of
              Inl msg \<Rightarrow> Inl msg
            | Inr payload \<Rightarrow>
                Inr (json_response 200 payload [(''Cache-Control'', ''public, max-age=300'')])))"
    unfolding fst_chapter_try using st by simp
  have t2: "fst (chapter_try chk2 env r2 b w n) =
      (case promise_all r2 ?L of
         Inl msg \<Rightarrow> Inl msg
       | Inr imageChecks \<Rightarrow>
           (case chapter_payload env w n meta ch sd imageChecks of
              Inl msg \<Rightarrow> Inl msg
            | Inr payload \<Rightarrow>
                Inr (json_response 200 payload [(''Cache-Control'', ''public, max-age=300'')])))"
    unfolding fst_chapter_try using st by (simp add: lists)
  from promise_all_races [of r1 ?L r2] show ?thesis
  proof
    assume "promise_all r1 ?L = promise_all r2 ?L"
    with t1 t2 show ?thesis by simp
  next
    assume "\<exists>e1 e2. promise_all r1 ?L = Inl e1 \<and> promise_all r2 ?L = Inl e2
         \<and> Rejected e1 \<in> set ?L \<and> Rejected e2 \<in> set ?L \<and> (r1 = r2 \<longrightarrow> e1 = e2)"
    then obtain e1 e2 where e: "promise_all r1 ?L = Inl e1" "promise_all r2 ?L = Inl e2"
      and m: "Rejected e1 \<in> set ?L" "Rejected e2 \<in> set ?L"
      and eq: "r1 = r2 \<longrightarrow> e1 = e2" by blast
    from m(1) obtain s1 where s1: "s1 \<in> fst ` set sd" "fst (chk1 env b w n s1) = Rejected e1"
      by (force simp: image_iff case_prod_unfold)
    from m(2) obtain s2 where s2: "s2 \<in> fst ` set sd" "fst (chk1 env b w n s2) = Rejected e2"
      by (force simp: image_iff case_prod_unfold)
    from t1 t2 e have "fst (chapter_try chk1 env r1 b w n) = Inl e1"
      "fst (chapter_try chk2 env r2 b w n) = Inl e2" by simp_all
    with st s1 s2 eq show ?thesis by blast
  qed
qed

lemma fst_onRequest_chapter:
  "fst (onRequest_chapter chk env race b p) =
     (if length (pathParts p) < 2 then json_response 400 (error_body ''Invalid path'') []
      else (case fst (chapter_try chk env race b (pathParts p ! 0) (parseInt env (pathParts p ! 1))) of
              Inl msg \<Rightarrow> json_response 500 (error_body msg) []
            | Inr r \<Rightarrow> r))"
  by (simp add: onRequest_chapter_def)

lemma chapter_versions_races:
  assumes "\<forall>segment \<in> set (request_segments env b p). \<forall>pngPath.
             segment_image_path env p segment ''.png'' = Inr pngPath \<longrightarrow>
             bucket_head b pngPath = Absent"
  shows "fst (onRequest_chapter_v1 env r1 b p) = fst (onRequest_chapter_v2 env r2 b p)
       \<or> (\<exists>e1 e2 s1 s2 q1 q2.
             fst (onRequest_chapter_v1 env r1 b p) = json_response 500 (error_body e1) []
           \<and> fst (onRequest_chapter_v2 env r2 b p) = json_response 500 (error_body e2) []
           \<and> s1 \<in> set (request_segments env b p)
           \<and> segment_image_path env p s1 ''.jpg'' = Inr q1 \<and> bucket_head b q1 = Throws e1
           \<and> s2 \<in> set (request_segments env b p)
           \<and> segment_image_path env p s2 ''.jpg'' = Inr q2 \<and> bucket_head b q2 = Throws e2
           \<and> (r1 = r2 \<longrightarrow> e1 = e2))"
proof (cases "length (pathParts p) < 2")
  case True
  then show ?thesis
    by (simp add: onRequest_chapter_v1_def onRequest_chapter_v2_def fst_onRequest_chapter)
next
  case False
  let ?w = "pathParts p ! 0" and ?n = "parseInt env (pathParts p ! 1)"
  have "fst (chapter_try imageCheck_v1 env r1 b ?w ?n) = fst (chapter_try imageCheck_v2 env r2 b ?w ?n)
       \<or> (\<exists>obj meta ch sd e1 e2 s1 s2.
             bucket_get b (?w @ ''/webtoon.json'') = Present obj \<and> obj_json obj = Inr meta
           \<and> chapter_of env meta ?n = Inr ch \<and> truthy env ch \<and> segmentData env ch = Inr sd
           \<and> fst (chapter_try imageCheck_v1 env r1 b ?w ?n) = Inl e1
           \<and> fst (chapter_try imageCheck_v2 env r2 b ?w ?n) = Inl e2
           \<and> s1 \<in> fst ` set sd \<and> fst (imageCheck_v1 env b ?w ?n s1) = Rejected e1
           \<and> s2 \<in> fst ` set sd \<and> fst (imageCheck_v1 env b ?w ?n s2) = Rejected e2
           \<and> (r1 = r2 \<longrightarrow> e1 = e2))"
  proof (rule fst_chapter_try_races, rule sym, rule imageCheck_v2_no_png)
    fix obj meta ch sd seg pngPath
    assume "bucket_get b (?w @ ''/webtoon.json'') = Present obj"
      "obj_json obj = Inr meta" "chapter_of env meta ?n = Inr ch"
      "truthy env ch" "segmentData env ch = Inr sd" "seg \<in> fst ` set sd"
      and png: "asset_path env ?w ?n seg ''.png'' = Inr pngPath"
    then have "seg \<in> set (request_segments env b p)"
      by (simp add: request_segments_def webtoon_key_def chapterNum_of_def)
    with assms png show "bucket_head b pngPath = Absent"
      by (simp add: segment_image_path_def chapterNum_of_def)
  qed
  then show ?thesis
  proof
    assume "fst (chapter_try imageCheck_v1 env r1 b ?w ?n)
              = fst (chapter_try imageCheck_v2 env r2 b ?w ?n)"
    then have "fst (onRequest_chapter_v1 env r1 b p) = fst (onRequest_chapter_v2 env r2 b p)"
      by (simp add: onRequest_chapter_v1_def onRequest_chapter_v2_def fst_onRequest_chapter)
    then show ?thesis ..
  next
    assume "\<exists>obj meta ch sd e1 e2 s1 s2.
             bucket_get b (?w @ ''/webtoon.json'') = Present obj \<and> obj_json obj = Inr meta
           \<and> chapter_of env meta ?n = Inr ch \<and> truthy env ch \<and> segmentData env ch = Inr sd
           \<and> fst (chapter_try imageCheck_v1 env r1 b ?w ?n) = Inl e1
           \<and> fst (chapter_try imageCheck_v2 env r2 b ?w ?n) = Inl e2
           \<and> s1 \<in> fst ` set sd \<and> fst (imageCheck_v1 env b ?w ?n s1) = Rejected e1
           \<and> s2 \<in> fst ` set sd \<and> fst (imageCheck_v1 env b ?w ?n s2) = Rejected e2
           \<and> (r1 = r2 \<longrightarrow> e1 = e2)"
    then obtain obj meta ch sd e1 e2 s1 s2 where
        st: "bucket_get b (?w @ ''/webtoon.json'') = Present obj" "obj_json obj = Inr meta"
          "chapter_of env meta ?n = Inr ch" "truthy env ch" "segmentData env ch = Inr sd"
      and t: "fst (chapter_try imageCheck_v1 env r1 b ?w ?n) = Inl e1"
          "fst (chapter_try imageCheck_v2 env r2 b ?w ?n) = Inl e2"
      and s: "s1 \<in> fst ` set sd" "fst (imageCheck_v1 env b ?w ?n s1) = Rejected e1"
          "s2 \<in> fst ` set sd" "fst (imageCheck_v1 env b ?w ?n s2) = Rejected e2"
      and eq: "r1 = r2 \<longrightarrow> e1 = e2"
      by blast
    from st have segs: "request_segments env b p = map fst sd"
      by (simp add: request_segments_def webtoon_key_def chapterNum_of_def)
    from imageCheck_v1_rejected [OF s(2)] obtain q1 where
      q1: "segment_image_path env p s1 ''.jpg'' = Inr q1" "bucket_head b q1 = Throws e1"
      by (auto simp: segment_image_path_def chapterNum_of_def)
    from imageCheck_v1_rejected [OF s(4)] obtain q2 where
      q2: "segment_image_path env p s2 ''.jpg'' = Inr q2" "bucket_head b q2 = Throws e2"
      by (auto simp: segment_image_path_def chapterNum_of_def)
    from t False have r:
      "fst (onRequest_chapter_v1 env r1 b p) = json_response 500 (error_body e1) []"
      "fst (onRequest_chapter_v2 env r2 b p) = json_response 500 (error_body e2) []"
      by (simp_all add: onRequest_chapter_v1_def onRequest_chapter_v2_def fst_onRequest_chapter)
    from s(1,3) segs have "s1 \<in> set (request_segments env b p)"
      "s2 \<in> set (request_segments env b p)" by simp_all
    with r q1 q2 eq show ?thesis by blast
  qed
qed

text \<open>What the second version reports for a segment that has a \<open>.png\<close>.\<close>

lemma in_mset_sum_list_iff: "a \<in># sum_list ms \<longleftrightarrow> (\<exists>m \<in> set ms. a \<in># m)"
  by (induction ms) auto

lemma imageCheck_v2_id:
  "fst (imageCheck_v2 env b w n seg) = Resolved c \<Longrightarrow> member env seg ''id'' = Inr (check_id c)"
  by (auto simp: imageCheck_v2_def split: sum.splits reply.splits)

lemma imageCheck_v2_png:
  "fst (imageCheck_v2 env b w n seg) = Resolved c \<Longrightarrow> asset_path env w n seg ''.png'' = Inr pngPath
     \<Longrightarrow> bucket_head b pngPath = Present obj \<Longrightarrow> check_exists c \<and> check_path c = pngPath"
  by (auto simp: imageCheck_v2_def split: sum.splits reply.splits)

lemma imageCheck_v2_ops:
  "Head q \<in># snd (imageCheck_v2 env b w n seg) \<Longrightarrow>
     asset_path env w n seg ''.png'' = Inr q
   \<or> (asset_path env w n seg ''.jpg'' = Inr q
        \<and> (\<exists>png. asset_path env w n seg ''.png'' = Inr png \<and> bucket_head b png = Absent))"
  by (auto simp: imageCheck_v2_def split: sum.splits reply.splits)

lemma asset_path_same_id:
  "member env seg ''id'' = member env seg' ''id'' \<Longrightarrow>
     asset_path env w n seg ext = asset_path env w n seg' ext"
  by (simp add: asset_path_def)

lemma asset_path_jpg_png:
  assumes "asset_path env w n seg ''.jpg'' = Inr q" "asset_path env w n seg' ''.jpg'' = Inr q"
  shows "asset_path env w n seg ''.png'' = asset_path env w n seg' ''.png''"
proof -
  from asset_path_ext [OF assms(1)] obtain s where
    s: "q = w @ ''/assets/chapters/ch'' @ num_to_string env n @ ''/'' @ s @ ''.jpg''"
       "\<forall>ext'. asset_path env w n seg ext'
          = Inr (w @ ''/assets/chapters/ch'' @ num_to_string env n @ ''/'' @ s @ ext')"
    by blast
  from asset_path_ext [OF assms(2)] obtain s' where
    s': "q = w @ ''/assets/chapters/ch'' @ num_to_string env n @ ''/'' @ s' @ ''.jpg''"
       "\<forall>ext'. asset_path env w n seg' ext'
          = Inr (w @ ''/assets/chapters/ch'' @ num_to_string env n @ ''/'' @ s' @ ext')"
    by blast
  from s(1) s'(1) have "s = s'" by simp
  with s(2) s'(2) show ?thesis by simp
qed

lemma png_not_jpg: "xs @ ''.png'' \<noteq> ys @ ''.jpg''"
proof
  assume "xs @ ''.png'' = ys @ ''.jpg''"
  then have "rev (xs @ ''.png'') = rev (ys @ ''.jpg'')" by simp
  then show False by simp
qed

lemma asset_path_png_not_jpg:
  assumes "asset_path env w n seg ''.png'' = Inr q"
  shows "asset_path env w n seg' ''.jpg'' \<noteq> Inr q"
proof
  assume j: "asset_path env w n seg' ''.jpg'' = Inr q"
  from asset_path_ext [OF assms] obtain s where
    s: "q = w @ ''/assets/chapters/ch'' @ num_to_string env n @ ''/'' @ s @ ''.png''" by blast
  from asset_path_ext [OF j] obtain s' where
    s': "q = w @ ''/assets/chapters/ch'' @ num_to_string env n @ ''/'' @ s' @ ''.jpg''" by blast
  from s s' have "s @ ''.png'' = s' @ ''.jpg''" by simp
  with png_not_jpg show False by blast
qed

lemma field_JObj [simp]: "field (JObj fs) name = map_of fs name"
  by (simp add: field_def)

lemma map_of_outside:
  assumes "name \<notin> fst ` set fs"
  shows "map_of (fs @ gs) name = map_of gs name"
proof -
  from assms have "map_of fs name = None" by (simp add: map_of_eq_None_iff)
  then show ?thesis by (simp add: map_add_def)
qed

lemma build_segment_image:
  assumes "build_segment env checks (i, seg, scene) = Inr v"
  shows "\<exists>key. member env seg ''id'' = Inr key
           \<and> field v ''image_url'' = Some (image_url (imageMap_get checks i key))
           \<and> field v ''has_image'' = Some (has_image (imageMap_get checks i key))"
proof -
  from assms obtain key fs ss where
      key: "member env seg ''id'' = Inr key"
    and fs: "copy_props env seg segment_fields = Inr fs"
    and ss: "copy_props env scene [(''scene_id'', ''id''), (''scene_title'', ''title'')] = Inr ss"
    and v: "v = JObj (fs @ ss @ [(''image_url'', image_url (imageMap_get checks i key)),
                                (''has_image'', has_image (imageMap_get checks i key))])"
    by (auto simp: build_segment_def split: sum.splits)
  from copy_props_fields [OF fs] have f1:
    "''image_url'' \<notin> set (map fst fs)" "''has_image'' \<notin> set (map fst fs)"
    by (simp_all add: segment_fields_def)
  from copy_props_fields [OF ss] have f2:
    "''image_url'' \<notin> set (map fst ss)" "''has_image'' \<notin> set (map fst ss)"
    by simp_all
  from key v f1 f2 show ?thesis
    by (simp add: map_of_outside del: map_of_append)
qed

lemma chapter_payload_segments:
  assumes "chapter_payload env w n meta ch sd checks = Inr payload"
  shows "\<exists>segs. map_res (build_segment env checks) (enumerate 0 sd) = Inr segs
           \<and> field payload ''segments'' = Some (JArr segs)
           \<and> (\<exists>fs. payload = JObj fs)"
proof -
  from assms obtain segments mt ct n_chapters where
      segs: "map_res (build_segment env checks) (enumerate 0 sd) = Inr segments"
    and mt: "copy_props env meta [(''webtoon_title'', ''title'')] = Inr mt"
    and ct: "copy_props env ch [(''chapter_title'', ''title''), (''chapter_summary'', ''summary'')]
               = Inr ct"
    and payload: "payload = JObj ([(''webtoon_id'', JStr w)] @ mt @
                     [(''chapter_number'', JNum n)] @ ct @
                     [(''total_chapters'', n_chapters), (''segments'', JArr segments)])"
    by (auto simp: chapter_payload_def split: sum.splits)
  from copy_props_fields [OF mt] have m: "''segments'' \<notin> set (map fst mt)" by simp
  from copy_props_fields [OF ct] have c: "''segments'' \<notin> set (map fst ct)" by simp
  from payload m c have "field payload ''segments'' = Some (JArr segments)"
    by (simp add: map_of_outside del: map_of_append)
  with segs payload show ?thesis by blast
qed

lemma png_reported:
  assumes ok: "status (fst (onRequest_chapter_v2 env race b p)) = 200"
    and i: "i < length (request_segments env b p)"
    and png: "segment_image_path env p (request_segments env b p ! i) ''.png'' = Inr pngPath"
    and jpg: "segment_image_path env p (request_segments env b p ! i) ''.jpg'' = Inr jpgPath"
    and head: "bucket_head b pngPath = Present obj"
  shows "length (response_segments (fst (onRequest_chapter_v2 env race b p)))
           = length (request_segments env b p)
       \<and> field (response_segments (fst (onRequest_chapter_v2 env race b p)) ! i) ''image_url''
           = Some (JStr (''/api/image/'' @ pngPath))
       \<and> field (response_segments (fst (onRequest_chapter_v2 env race b p)) ! i) ''has_image''
           = Some (JBool True)
       \<and> Head jpgPath \<notin># snd (onRequest_chapter_v2 env race b p)"
proof -
  let ?w = "pathParts p ! 0" and ?n = "chapterNum_of env p"
  let ?chk = "\<lambda>(segment, scene). fst (imageCheck_v2 env b ?w ?n segment)"
  let ?ops = "\<lambda>(segment, scene). snd (imageCheck_v2 env b ?w ?n segment)"
  have two: "2 \<le> length (pathParts p)"
  proof (rule ccontr)
    assume "\<not> 2 \<le> length (pathParts p)"
    then have "length (pathParts p) < 2" by simp
    from onRequest_chapter_short [OF this, of imageCheck_v2 env race b] ok show False
      by (simp add: onRequest_chapter_v2_def)
  qed
  from onRequest_chapter_cases [OF two, of imageCheck_v2 env race b] ok
  obtain obj' meta ch sd checks payload where
      res: "onRequest_chapter_v2 env race b p
              = (json_response 200 payload [(''Cache-Control'', ''public, max-age=300'')],
                 add_mset (Get (webtoon_key p)) (sum_list (map ?ops sd)))"
    and get: "bucket_get b (webtoon_key p) = Present obj'" "obj_json obj' = Inr meta"
      "chapter_of env meta ?n = Inr ch" "truthy env ch" "segmentData env ch = Inr sd"
    and checks: "promise_all race (map ?chk sd) = Inr checks"
    and payload: "chapter_payload env ?w ?n meta ch sd checks = Inr payload"
    unfolding onRequest_chapter_v2_def by (elim disjE exE conjE) auto
  from get have segs_eq: "request_segments env b p = map fst sd"
    by (simp add: request_segments_def)
  from i segs_eq have i_sd: "i < length sd" by simp
  obtain seg scene where sdi: "sd ! i = (seg, scene)" by (rule prod.exhaust)
  with segs_eq i_sd have seg: "request_segments env b p ! i = seg" by simp
  from png jpg seg have png': "asset_path env ?w ?n seg ''.png'' = Inr pngPath"
    and jpg': "asset_path env ?w ?n seg ''.jpg'' = Inr jpgPath"
    by (simp_all add: segment_image_path_def)
  from promise_all_Inr [OF checks] have settled: "map ?chk sd = map Resolved checks" .
  then have len_checks: "length checks = length sd"
    by (rule map_eq_imp_length_eq [symmetric])
  have check_at: "fst (imageCheck_v2 env b ?w ?n (fst (sd ! j))) = Resolved (checks ! j)"
    if "j < length sd" for j
  proof -
    from that len_checks have "map ?chk sd ! j = map Resolved checks ! j"
      unfolding settled by simp
    with that len_checks show ?thesis by (simp add: case_prod_unfold)
  qed
  from chapter_payload_segments [OF payload] obtain segs fs where
      segs: "map_res (build_segment env checks) (enumerate 0 sd) = Inr segs"
    and fsegs: "field payload ''segments'' = Some (JArr segs)" and pl: "payload = JObj fs"
    by blast
  from res fsegs pl have rs: "response_segments (fst (onRequest_chapter_v2 env race b p)) = segs"
    by (simp add: response_segments_def)
  from map_res_Inr [OF segs] have len_segs: "length segs = length sd"
    and seg_at: "\<And>j. j < length sd \<Longrightarrow>
                   build_segment env checks (enumerate 0 sd ! j) = Inr (segs ! j)"
    by auto
  from seg_at [OF i_sd] i_sd sdi have "build_segment env checks (i, seg, scene) = Inr (segs ! i)"
    by (simp add: nth_enumerate_eq)
  from build_segment_image [OF this] obtain key where
      key: "member env seg ''id'' = Inr key"
    and url: "field (segs ! i) ''image_url'' = Some (image_url (imageMap_get checks i key))"
    and has: "field (segs ! i) ''has_image'' = Some (has_image (imageMap_get checks i key))"
    by blast
  have "\<exists>c. imageMap_get checks i key = Some c \<and> (check_exists c \<and> check_path c = pngPath)"
  proof (rule imageMap_get_last)
    show "i < length checks" using i_sd len_checks by simp
    from imageCheck_v2_id [OF check_at [OF i_sd]] sdi key
    show "check_id (checks ! i) = key" by simp
  next
    fix j
    assume j: "j < length checks"
      and same: "same_value_zero (i, key) (j, check_id (checks ! j))"
    from j len_checks have j_sd: "j < length sd" by simp
    from imageCheck_v2_id [OF check_at [OF j_sd]]
    have idj: "member env (fst (sd ! j)) ''id'' = Inr (check_id (checks ! j))" .
    from same_value_zero_cases [OF same] idj key sdi
    have "member env (fst (sd ! j)) ''id'' = member env seg ''id''" by auto
    from asset_path_same_id [OF this] png'
    have "asset_path env ?w ?n (fst (sd ! j)) ''.png'' = Inr pngPath" by simp
    from imageCheck_v2_png [OF check_at [OF j_sd] this head]
    show "check_exists (checks ! j) \<and> check_path (checks ! j) = pngPath" .
  qed
  then obtain c where c: "imageMap_get checks i key = Some c" "check_exists c"
    "check_path c = pngPath" by blast
  have nolog: "Head jpgPath \<notin># snd (onRequest_chapter_v2 env race b p)"
  proof
    assume "Head jpgPath \<in># snd (onRequest_chapter_v2 env race b p)"
    with res have "Head jpgPath \<in># sum_list (map ?ops sd)"
      by simp
    then obtain x where x: "x \<in> set sd"
      and h: "Head jpgPath \<in># snd (imageCheck_v2 env b ?w ?n (fst x))"
      by (auto simp: in_mset_sum_list_iff case_prod_unfold)
    from imageCheck_v2_ops [OF h] show False
    proof
      assume "asset_path env ?w ?n (fst x) ''.png'' = Inr jpgPath"
      from asset_path_png_not_jpg [OF this, of seg] jpg' show False by simp
    next
      assume "asset_path env ?w ?n (fst x) ''.jpg'' = Inr jpgPath
              \<and> (\<exists>png. asset_path env ?w ?n (fst x) ''.png'' = Inr png
                    \<and> bucket_head b png = Absent)"
      then obtain q where q: "asset_path env ?w ?n (fst x) ''.jpg'' = Inr jpgPath"
        "asset_path env ?w ?n (fst x) ''.png'' = Inr q" "bucket_head b q = Absent" by blast
      from asset_path_jpg_png [OF q(1) jpg'] q(2) png' have "q = pngPath" by simp
      with q(3) head show False by simp
    qed
  qed
  from rs len_segs segs_eq url has c nolog show ?thesis
    by (simp add: image_url_def has_image_def)
qed

text \<open>
  Claim C8.  Let the bucket hold no object under the \<open>.png\<close> path of any segment of the
  requested chapter.  Which response a version gives can then depend on the timing
  only when the \<open>head\<close> calls of several \<open>.jpg\<close> paths reject: the 500 response carries
  the message of the one that rejects first.  The two versions have the same
  responses: for each choice \<open>race\<close> of the failing check that is seen first they give
  the same response.  And whatever is seen first in the one (\<open>ra\<close>) and in the other
  (\<open>rb\<close>), they give the same status, the same response when the status is not 500, and
  the same response too when every rejecting \<open>.jpg\<close> call of the chapter has one and the
  same message \<open>e\<close> (which is so when at most one rejects).

  When the second version answers 200 and the bucket holds an object under the \<open>.png\<close>
  path of the \<open>i\<close>-th segment, the \<open>i\<close>-th segment of the response has that \<open>.png\<close> path
  in its \<open>image_url\<close>, \<open>has_image\<close> is true, and the handler issued no \<open>head\<close> for the
  segment's \<open>.jpg\<close> path.
\<close>

theorem chapter_versions:
  "((\<forall>segment \<in> set (request_segments env b p). \<forall>pngPath.
        segment_image_path env p segment ''.png'' = Inr pngPath \<longrightarrow>
        bucket_head b pngPath = Absent) \<longrightarrow>
      fst (onRequest_chapter_v1 env race b p) = fst (onRequest_chapter_v2 env race b p)
      \<and> status (fst (onRequest_chapter_v1 env ra b p))
          = status (fst (onRequest_chapter_v2 env rb b p))
      \<and> (status (fst (onRequest_chapter_v1 env ra b p)) \<noteq> 500 \<longrightarrow>
           fst (onRequest_chapter_v1 env ra b p) = fst (onRequest_chapter_v2 env rb b p))
      \<and> ((\<forall>segment \<in> set (request_segments env b p). \<forall>jpgPath e'.
             segment_image_path env p segment ''.jpg'' = Inr jpgPath
             \<and> bucket_head b jpgPath = Throws e' \<longrightarrow> e' = e) \<longrightarrow>
           fst (onRequest_chapter_v1 env ra b p) = fst (onRequest_chapter_v2 env rb b p)))
   \<and> (status (fst (onRequest_chapter_v2 env race b p)) = 200
        \<and> i < length (request_segments env b p)
        \<and> segment_image_path env p (request_segments env b p ! i) ''.png'' = Inr pngPath
        \<and> segment_image_path env p (request_segments env b p ! i) ''.jpg'' = Inr jpgPath
        \<and> bucket_head b pngPath = Present obj \<longrightarrow>
      length (response_segments (fst (onRequest_chapter_v2 env race b p)))
        = length (request_segments env b p)
      \<and> field (response_segments (fst (onRequest_chapter_v2 env race b p)) ! i) ''image_url''
          = Some (JStr (''/api/image/'' @ pngPath))
      \<and> field (response_segments (fst (onRequest_chapter_v2 env race b p)) ! i) ''has_image''
          = Some (JBool True)
      \<and> Head jpgPath \<notin># snd (onRequest_chapter_v2 env race b p))"
proof (intro conjI impI)
  assume no_png: "\<forall>segment \<in> set (request_segments env b p). \<forall>pngPath.
            segment_image_path env p segment ''.png'' = Inr pngPath \<longrightarrow>
            bucket_head b pngPath = Absent"
  from chapter_versions_races [OF no_png, of race race]
  show "fst (onRequest_chapter_v1 env race b p) = fst (onRequest_chapter_v2 env race b p)"
    by auto
  from chapter_versions_races [OF no_png, of ra rb]
  show "status (fst (onRequest_chapter_v1 env ra b p))
          = status (fst (onRequest_chapter_v2 env rb b p))"
    by auto
  {
    assume "status (fst (onRequest_chapter_v1 env ra b p)) \<noteq> 500"
    with chapter_versions_races [OF no_png, of ra rb]
    show "fst (onRequest_chapter_v1 env ra b p) = fst (onRequest_chapter_v2 env rb b p)"
      by auto
  }
  {
    assume one: "\<forall>segment \<in> set (request_segments env b p). \<forall>jpgPath e'.
             segment_image_path env p segment ''.jpg'' = Inr jpgPath
             \<and> bucket_head b jpgPath = Throws e' \<longrightarrow> e' = e"
    from chapter_versions_races [OF no_png, of ra rb]
    show "fst (onRequest_chapter_v1 env ra b p) = fst (onRequest_chapter_v2 env rb b p)"
    proof
      assume "fst (onRequest_chapter_v1 env ra b p) = fst (onRequest_chapter_v2 env rb b p)"
      then show ?thesis .
    next
      assume "\<exists>e1 e2 s1 s2 q1 q2.
             fst (onRequest_chapter_v1 env ra b p) = json_response 500 (error_body e1) []
           \<and> fst (onRequest_chapter_v2 env rb b p) = json_response 500 (error_body e2) []
           \<and> s1 \<in> set (request_segments env b p)
           \<and> segment_image_path env p s1 ''.jpg'' = Inr q1 \<and> bucket_head b q1 = Throws e1
           \<and> s2 \<in> set (request_segments env b p)
           \<and> segment_image_path env p s2 ''.jpg'' = Inr q2 \<and> bucket_head b q2 = Throws e2
           \<and> (ra = rb \<longrightarrow> e1 = e2)"
      then obtain e1 e2 s1 s2 q1 q2 where
          r: "fst (onRequest_chapter_v1 env ra b p) = json_response 500 (error_body e1) []"
             "fst (onRequest_chapter_v2 env rb b p) = json_response 500 (error_body e2) []"
        and s1: "s1 \<in> set (request_segments env b p)"
             "segment_image_path env p s1 ''.jpg'' = Inr q1" "bucket_head b q1 = Throws e1"
        and s2: "s2 \<in> set (request_segments env b p)"
             "segment_image_path env p s2 ''.jpg'' = Inr q2" "bucket_head b q2 = Throws e2"
        by blast
      from one s1 have "e1 = e" by blast
      moreover from one s2 have "e2 = e" by blast
      ultimately show ?thesis using r by simp
    qed
  }
next
  assume a: "status (fst (onRequest_chapter_v2 env race b p)) = 200
        \<and> i < length (request_segments env b p)
        \<and> segment_image_path env p (request_segments env b p ! i) ''.png'' = Inr pngPath
        \<and> segment_image_path env p (request_segments env b p ! i) ''.jpg'' = Inr jpgPath
        \<and> bucket_head b pngPath = Present obj"
  then have r: "length (response_segments (fst (onRequest_chapter_v2 env race b p)))
           = length (request_segments env b p)
       \<and> field (response_segments (fst (onRequest_chapter_v2 env race b p)) ! i) ''image_url''
           = Some (JStr (''/api/image/'' @ pngPath))
       \<and> field (response_segments (fst (onRequest_chapter_v2 env race b p)) ! i) ''has_image''
           = Some (JBool True)
       \<and> Head jpgPath \<notin># snd (onRequest_chapter_v2 env race b p)"
    by (intro png_reported [of env race b p i pngPath jpgPath obj]) simp_all
  from r show "length (response_segments (fst (onRequest_chapter_v2 env race b p)))
           = length (request_segments env b p)" by simp
  from r show "field (response_segments (fst (onRequest_chapter_v2 env race b p)) ! i) ''image_url''
           = Some (JStr (''/api/image/'' @ pngPath))" by simp
  from r show "field (response_segments (fst (onRequest_chapter_v2 env race b p)) ! i) ''has_image''
           = Some (JBool True)" by simp
  from r show "Head jpgPath \<notin># snd (onRequest_chapter_v2 env race b p)" by simp
qed

text \<open>
  The theorem at chapter 1 of \<open>w1\<close>.  In \<open>jpg_bucket\<close> no segment has a \<open>.png\<close> and no
  \<open>head\<close> rejects: both versions give the same response, status 200, under any two
  timings.  In \<open>slow_bucket\<close> no segment has a \<open>.png\<close> either and the \<open>head\<close> calls of both
  \<open>.jpg\<close> paths reject: the versions agree when the same check fails first in both;
  when the last fails first in the first version and the first in the second, both
  answer 500, the one with the message for \<open>p2\<close>, the other with that for \<open>p1\<close>.  In
  \<open>png_bucket\<close> segment \<open>p1\<close> has a \<open>.png\<close>: the second version reports it and issues no
  \<open>head\<close> for \<open>p1.jpg\<close>.
\<close>

theorem chapter_versions_witness:
  "request_segments int_env jpg_bucket (PathString ''w1/1'')
     = [JObj [(''id'', JStr ''p1''), (''sequence'', JNum (Some 1))],
        JObj [(''id'', JStr ''p2''), (''sequence'', JNum (Some 2))]]
   \<and> bucket_head jpg_bucket ''w1/assets/chapters/ch1/p1.png'' = Absent
   \<and> bucket_head jpg_bucket ''w1/assets/chapters/ch1/p2.png'' = Absent
   \<and> status (fst (onRequest_chapter_v1 int_env first_listed jpg_bucket (PathString ''w1/1''))) = 200
   \<and> fst (onRequest_chapter_v1 int_env first_listed jpg_bucket (PathString ''w1/1''))
       = fst (onRequest_chapter_v2 int_env last_listed jpg_bucket (PathString ''w1/1''))
   \<and> fst (onRequest_chapter_v1 int_env last_listed jpg_bucket (PathString ''w1/1''))
       = fst (onRequest_chapter_v2 int_env first_listed jpg_bucket (PathString ''w1/1''))
   \<and> request_segments int_env slow_bucket (PathString ''w1/1'')
     = [JObj [(''id'', JStr ''p1''), (''sequence'', JNum (Some 1))],
        JObj [(''id'', JStr ''p2''), (''sequence'', JNum (Some 2))]]
   \<and> bucket_head slow_bucket ''w1/assets/chapters/ch1/p1.png'' = Absent
   \<and> bucket_head slow_bucket ''w1/assets/chapters/ch1/p2.png'' = Absent
   \<and> bucket_head slow_bucket ''w1/assets/chapters/ch1/p1.jpg'' = Throws ''timeout p1''
   \<and> bucket_head slow_bucket ''w1/assets/chapters/ch1/p2.jpg'' = Throws ''timeout p2''
   \<and> fst (onRequest_chapter_v1 int_env first_listed slow_bucket (PathString ''w1/1''))
       = fst (onRequest_chapter_v2 int_env first_listed slow_bucket (PathString ''w1/1''))
   \<and> status (fst (onRequest_chapter_v1 int_env last_listed slow_bucket (PathString ''w1/1'')))
       = status (fst (onRequest_chapter_v2 int_env first_listed slow_bucket (PathString ''w1/1'')))
   \<and> fst (onRequest_chapter_v1 int_env last_listed slow_bucket (PathString ''w1/1''))
       = \<lparr>status = 500, body = Json (JObj [(''error'', JStr ''timeout p2'')]),
          headers = [(''Content-Type'', ''application/json'')]\<rparr>
   \<and> fst (onRequest_chapter_v2 int_env first_listed slow_bucket (PathString ''w1/1''))
       = \<lparr>status = 500, body = Json (JObj [(''error'', JStr ''timeout p1'')]),
          headers = [(''Content-Type'', ''application/json'')]\<rparr>
   \<and> status (fst (onRequest_chapter_v2 int_env first_listed png_bucket (PathString ''w1/1''))) = 200
   \<and> bucket_head png_bucket ''w1/assets/chapters/ch1/p1.png'' = Present demo_object
   \<and> field (response_segments (fst (onRequest_chapter_v2 int_env first_listed png_bucket
               (PathString ''w1/1''))) ! 0) ''image_url''
       = Some (JStr (''/api/image/'' @ ''w1/assets/chapters/ch1/p1.png''))
   \<and> field (response_segments (fst (onRequest_chapter_v2 int_env first_listed png_bucket
               (PathString ''w1/1''))) ! 0) ''has_image''
       = Some (JBool True)
   \<and> Head ''w1/assets/chapters/ch1/p1.jpg''
       \<notin># snd (onRequest_chapter_v2 int_env first_listed png_bucket (PathString ''w1/1''))"
proof -
  let ?p = "PathString ''w1/1''"
  let ?s1 = "JObj [(''id'', JStr ''p1''), (''sequence'', JNum (Some (1::int)))]"
  let ?s2 = "JObj [(''id'', JStr ''p2''), (''sequence'', JNum (Some (2::int)))]"
  have segs: "request_segments int_env jpg_bucket ?p = [?s1, ?s2]"
    by code_simp
  have segs': "request_segments int_env png_bucket ?p = [?s1, ?s2]"
    by code_simp
  have segs'': "request_segments int_env slow_bucket ?p = [?s1, ?s2]"
    by code_simp
  have p1: "segment_image_path int_env ?p ?s1 ''.png'' = Inr ''w1/assets/chapters/ch1/p1.png''"
    by code_simp
  have p2: "segment_image_path int_env ?p ?s2 ''.png'' = Inr ''w1/assets/chapters/ch1/p2.png''"
    by code_simp
  have j1: "segment_image_path int_env ?p ?s1 ''.jpg'' = Inr ''w1/assets/chapters/ch1/p1.jpg''"
    by code_simp
  have j2: "segment_image_path int_env ?p ?s2 ''.jpg'' = Inr ''w1/assets/chapters/ch1/p2.jpg''"
    by code_simp
  have a1: "bucket_head jpg_bucket ''w1/assets/chapters/ch1/p1.png'' = Absent"
    and a2: "bucket_head jpg_bucket ''w1/assets/chapters/ch1/p2.png'' = Absent"
    by (simp_all add: jpg_bucket_def)
  have no_png: "\<forall>segment \<in> set (request_segments int_env jpg_bucket ?p). \<forall>pngPath.
        segment_image_path int_env ?p segment ''.png'' = Inr pngPath \<longrightarrow>
        bucket_head jpg_bucket pngPath = Absent"
    unfolding segs using p1 p2 a1 a2 by auto
  have ok1: "status (fst (onRequest_chapter_v1 int_env first_listed jpg_bucket ?p)) = 200"
    by code_simp
  then have served: "status (fst (onRequest_chapter_v1 int_env first_listed jpg_bucket ?p)) \<noteq> 500"
    by simp
  note same1 = chapter_versions [where env = int_env and b = jpg_bucket and p = ?p
                    and ra = first_listed and rb = last_listed,
                  THEN conjunct1, THEN mp, OF no_png,
                  THEN conjunct2, THEN conjunct2, THEN conjunct1, THEN mp, OF served]
  have settle: "\<forall>segment \<in> set (request_segments int_env jpg_bucket ?p). \<forall>jpgPath e'.
             segment_image_path int_env ?p segment ''.jpg'' = Inr jpgPath
             \<and> bucket_head jpg_bucket jpgPath = Throws e' \<longrightarrow> e' = []"
    by (simp add: jpg_bucket_def)
  note same2 = chapter_versions [where env = int_env and b = jpg_bucket and p = ?p
                    and ra = last_listed and rb = first_listed and e = "[]",
                  THEN conjunct1, THEN mp, OF no_png,
                  THEN conjunct2, THEN conjunct2, THEN conjunct2, THEN mp, OF settle]
  have b1: "bucket_head slow_bucket ''w1/assets/chapters/ch1/p1.png'' = Absent"
    and b2: "bucket_head slow_bucket ''w1/assets/chapters/ch1/p2.png'' = Absent"
    and t1: "bucket_head slow_bucket ''w1/assets/chapters/ch1/p1.jpg'' = Throws ''timeout p1''"
    and t2: "bucket_head slow_bucket ''w1/assets/chapters/ch1/p2.jpg'' = Throws ''timeout p2''"
    by (simp_all add: slow_bucket_def)
  have no_png': "\<forall>segment \<in> set (request_segments int_env slow_bucket ?p). \<forall>pngPath.
        segment_image_path int_env ?p segment ''.png'' = Inr pngPath \<longrightarrow>
        bucket_head slow_bucket pngPath = Absent"
    unfolding segs'' using p1 p2 b1 b2 by auto
  note same3 = chapter_versions [where env = int_env and b = slow_bucket and p = ?p
                    and race = first_listed,
                  THEN conjunct1, THEN mp, OF no_png', THEN conjunct1]
  note same4 = chapter_versions [where env = int_env and b = slow_bucket and p = ?p
                    and ra = last_listed and rb = first_listed,
                  THEN conjunct1, THEN mp, OF no_png', THEN conjunct2, THEN conjunct1]
  have f1: "fst (onRequest_chapter_v1 int_env last_listed slow_bucket ?p)
       = \<lparr>status = 500, body = Json (JObj [(''error'', JStr ''timeout p2'')]),
          headers = [(''Content-Type'', ''application/json'')]\<rparr>"
    by code_simp
  have f2: "fst (onRequest_chapter_v2 int_env first_listed slow_bucket ?p)
       = \<lparr>status = 500, body = Json (JObj [(''error'', JStr ''timeout p1'')]),
          headers = [(''Content-Type'', ''application/json'')]\<rparr>"
    by code_simp
  have ok: "status (fst (onRequest_chapter_v2 int_env first_listed png_bucket ?p)) = 200"
    by code_simp
  have i: "0 < length (request_segments int_env png_bucket ?p)"
    by (simp add: segs')
  have at: "request_segments int_env png_bucket ?p ! 0 = ?s1"
    by (simp add: segs')
  have present: "bucket_head png_bucket ''w1/assets/chapters/ch1/p1.png'' = Present demo_object"
    by (simp add: png_bucket_def)
  note R = chapter_versions [where env = int_env and b = png_bucket and p = ?p and i = 0
               and race = first_listed
               and pngPath = "''w1/assets/chapters/ch1/p1.png''"
               and jpgPath = "''w1/assets/chapters/ch1/p1.jpg''" and obj = demo_object,
             THEN conjunct2, THEN mp]
  have hyp: "status (fst (onRequest_chapter_v2 int_env first_listed png_bucket ?p)) = 200
        \<and> 0 < length (request_segments int_env png_bucket ?p)
        \<and> segment_image_path int_env ?p (request_segments int_env png_bucket ?p ! 0) ''.png''
            = Inr ''w1/assets/chapters/ch1/p1.png''
        \<and> segment_image_path int_env ?p (request_segments int_env png_bucket ?p ! 0) ''.jpg''
            = Inr ''w1/assets/chapters/ch1/p1.jpg''
        \<and> bucket_head png_bucket ''w1/assets/chapters/ch1/p1.png'' = Present demo_object"
    unfolding at using ok i p1 j1 present by (intro conjI)
  note C = R [OF hyp]
  note url = C [THEN conjunct2, THEN conjunct1]
  note has = C [THEN conjunct2, THEN conjunct2, THEN conjunct1]
  note nolog = C [THEN conjunct2, THEN conjunct2, THEN conjunct2]
  show ?thesis
    by (intro conjI segs a1 a2 ok1 same1 same2 segs'' b1 b2 t1 t2 same3 same4 f1 f2 ok present
          url has nolog)
qed

section \<open>Properties of the cache index\<close>

declare evict_if_over_capacity.simps [simp del]

lemma older_refl: "older m m"
  by (simp add: older_def)

lemma older_total: "older m m' \<or> older m' m"
  by (auto simp: older_def)

lemma older_trans: "older a b \<Longrightarrow> older b c \<Longrightarrow> older a c"
  by (auto simp: older_def)

lemma lru_None: "lru idx = None \<longleftrightarrow> idx = []"
  by (cases idx) (auto split: option.splits)

lemma lru_oldest: "lru idx = Some e \<Longrightarrow> e' \<in> set idx \<Longrightarrow> older (snd e) (snd e')"
proof (induction idx arbitrary: e)
  case Nil
  then show ?case by simp
next
  case (Cons x xs)
  show ?case
  proof (cases "lru xs")
    case None
    with Cons.prems show ?thesis by (simp add: lru_None older_refl)
  next
    case (Some y)
    note IH = Cons.IH [OF Some]
    from Cons.prems(2) have mem: "e' = x \<or> e' \<in> set xs" by simp
    show ?thesis
    proof (cases "older (snd x) (snd y)")
      case True
      with Some Cons.prems(1) have e: "e = x" by simp
      from mem show ?thesis
      proof
        assume "e' = x" with e show ?thesis by (simp add: older_refl)
      next
        assume "e' \<in> set xs"
        from older_trans [OF True IH [OF this]] e show ?thesis by simp
      qed
    next
      case False
      with Some Cons.prems(1) have e: "e = y" by simp
      from mem show ?thesis
      proof
        assume "e' = x" with e False older_total [of "snd x" "snd y"] show ?thesis by simp
      next
        assume "e' \<in> set xs"
        from IH [OF this] e show ?thesis by simp
      qed
    qed
  qed
qed

lemma not_over_capacity_Nil: "\<not> over_capacity cfg []"
  by (simp add: over_capacity_def total_bytes_def split: option.splits)

lemma evict_config: "config (snd (evict_if_over_capacity s)) = config s"
proof (induction s rule: evict_if_over_capacity.induct)
  case (1 s)
  show ?case
  proof (cases "over_capacity (config s) (index s)")
    case False
    then show ?thesis by (simp add: evict_if_over_capacity.simps [of s])
  next
    case True
    show ?thesis
    proof (cases "lru (index s)")
      case None
      with True show ?thesis by (simp add: evict_if_over_capacity.simps [of s])
    next
      case (Some e)
      with True "1.IH" [OF True Some] show ?thesis
        by (simp add: evict_if_over_capacity.simps [of s])
    qed
  qed
qed

lemma evict_within_capacity:
  "\<not> over_capacity (config s) (index (snd (evict_if_over_capacity s)))"
proof (induction s rule: evict_if_over_capacity.induct)
  case (1 s)
  show ?case
  proof (cases "over_capacity (config s) (index s)")
    case False
    then show ?thesis by (simp add: evict_if_over_capacity.simps [of s])
  next
    case True
    show ?thesis
    proof (cases "lru (index s)")
      case None
      then have "index s = []" by (simp add: lru_None)
      with True not_over_capacity_Nil show ?thesis by simp
    next
      case (Some e)
      with True "1.IH" [OF True Some] show ?thesis
        by (simp add: evict_if_over_capacity.simps [of s])
    qed
  qed
qed

lemma keys_delete: "fst ` set (AList.delete k al) = fst ` set al - {k}"
  by (induction al) auto

lemma consistent_delete:
  assumes "consistent s"
  shows "consistent (s\<lparr>index := AList.delete k (index s), disk := remove k (disk s)\<rparr>)"
  using assms
  by (auto simp: consistent_def keys_delete remove_def AList.delete_conv' AList.distinct_delete)

lemma evict_consistent:
  "consistent s \<Longrightarrow> consistent (snd (evict_if_over_capacity s))"
proof (induction s rule: evict_if_over_capacity.induct)
  case (1 s)
  show ?case
  proof (cases "over_capacity (config s) (index s)")
    case False
    with "1.prems" show ?thesis by (simp add: evict_if_over_capacity.simps [of s])
  next
    case True
    show ?thesis
    proof (cases "lru (index s)")
      case None
      with True "1.prems" show ?thesis by (simp add: evict_if_over_capacity.simps [of s])
    next
      case (Some e)
      from "1.IH" [OF True Some consistent_delete [OF "1.prems"]] True Some show ?thesis
        by (simp add: evict_if_over_capacity.simps [of s])
    qed
  qed
qed

lemma evict_invariant:
  "consistent s \<Longrightarrow> index_invariant (snd (evict_if_over_capacity s))"
  using evict_within_capacity [of s]
  by (simp add: index_invariant_def evict_consistent evict_config)

lemma keys_update_present:
  "map_of al k = Some v \<Longrightarrow> fst ` set (AList.update k v' al) = fst ` set al"
  by (auto simp: AList.dom_update dest: map_of_SomeD intro: rev_image_eqI)

lemma length_update_present:
  "map_of al k = Some v \<Longrightarrow> length (AList.update k v' al) = length al"
  by (induction al) (auto split: if_splits)

lemma total_bytes_update_present:
  "map_of idx k = Some m \<Longrightarrow> size_bytes m' = size_bytes m \<Longrightarrow>
     total_bytes (AList.update k m' idx) = total_bytes idx"
  by (induction idx) (auto simp: total_bytes_def split: if_splits)

lemma touch_invariant: "index_invariant s \<Longrightarrow> index_invariant (touch k s)"
proof (cases "map_of (index s) k")
  case None
  assume "index_invariant s"
  with None show ?thesis by (simp add: touch_def)
next
  case (Some m)
  assume inv: "index_invariant s"
  let ?m = "m\<lparr>last_accessed_at := clock s\<rparr>"
  have "size_bytes ?m = size_bytes m" by simp
  with Some have tb: "total_bytes (AList.update k ?m (index s)) = total_bytes (index s)"
    by (rule total_bytes_update_present)
  from Some have len: "length (AList.update k ?m (index s)) = length (index s)"
    by (rule length_update_present)
  from Some have keys: "fst ` set (AList.update k ?m (index s)) = fst ` set (index s)"
    by (rule keys_update_present)
  have cap: "over_capacity (config s) (AList.update k ?m (index s))
               = over_capacity (config s) (index s)"
    unfolding over_capacity_def tb len ..
  from inv have "consistent (touch k s)"
    using Some keys by (simp add: touch_def index_invariant_def consistent_def AList.distinct_update)
  moreover from inv have "\<not> over_capacity (config (touch k s)) (index (touch k s))"
    using Some cap by (simp add: touch_def index_invariant_def)
  ultimately show ?thesis by (simp add: index_invariant_def)
qed

lemma lookup_invariant: "index_invariant s \<Longrightarrow> index_invariant (snd (lookup k s))"
  by (auto simp: lookup_def touch_invariant split: option.splits)

lemma valid_written:
  "size_bytes m = length bytes \<Longrightarrow>
     valid_files \<lparr>payload_file = Some bytes, sidecar_file = Some m\<rparr>"
  by (simp add: valid_files_def)

lemma add_entry_consistent:
  assumes "consistent s" "size_bytes m = length bytes"
  shows "consistent (add_entry k m' (s\<lparr>disk := write_entry k bytes m (disk s)\<rparr>))"
  using assms
  by (auto simp: consistent_def add_entry_def write_entry_def AList.distinct_update
                 AList.dom_update AList.update_conv' valid_written)

lemma insert_entry_invariant:
  assumes "index_invariant s" "size_bytes m = length bytes"
  shows "index_invariant (insert_entry k m' (s\<lparr>disk := write_entry k bytes m (disk s)\<rparr>))"
proof -
  from assms(1) have "consistent s" by (simp add: index_invariant_def)
  from add_entry_consistent [OF this assms(2)] show ?thesis
    unfolding insert_entry_def by (rule evict_invariant)
qed

lemma put_invariant: "index_invariant s \<Longrightarrow> index_invariant (put k bytes kind s)"
  unfolding put_def by (rule insert_entry_invariant) simp_all

lemma empty_invariant: "index_invariant (empty_cache cfg)"
  by (simp add: index_invariant_def consistent_def empty_cache_def not_over_capacity_Nil)

lemma evict_first:
  assumes "evict_if_over_capacity s = (k # ks, s')"
  shows "\<exists>m. lru (index s) = Some (k, m)
           \<and> evict_if_over_capacity
                (s\<lparr>index := AList.delete k (index s), disk := remove k (disk s)\<rparr>) = (ks, s')"
proof (cases "over_capacity (config s) (index s)")
  case False
  with assms show ?thesis by (simp add: evict_if_over_capacity.simps [of s])
next
  case True
  show ?thesis
  proof (cases "lru (index s)")
    case None
    with True assms show ?thesis by (simp add: evict_if_over_capacity.simps [of s])
  next
    case (Some e)
    with True assms show ?thesis
      by (cases e) (auto simp: evict_if_over_capacity.simps [of s])
  qed
qed

lemma evict_nonempty:
  assumes "over_capacity (config s) (index s)"
  shows "fst (evict_if_over_capacity s) \<noteq> []"
proof (cases "lru (index s)")
  case None
  then have "index s = []" by (simp add: lru_None)
  with assms not_over_capacity_Nil show ?thesis by simp
next
  case (Some e)
  with assms show ?thesis by (simp add: evict_if_over_capacity.simps [of s])
qed

lemma evict_none:
  "\<not> over_capacity (config s) (index s) \<Longrightarrow> evict_if_over_capacity s = ([], s)"
  by (simp add: evict_if_over_capacity.simps [of s])

text \<open>
  Claim C3.  With a capacity of two entries, after \<open>put(A); put(B); get(A)\<close> the index
  holds A and B, and \<open>put(C)\<close> evicts exactly B, leaving A and C in the index and on the
  persistence layer.  In general an index over capacity evicts at least one entry, and
  whenever the eviction returns the keys \<open>k # ks\<close>, the entry of \<open>k\<close> was in the index,
  no entry was used less recently, among the entries last used at the same time none
  was inserted earlier, and \<open>ks\<close> is what the eviction returns once \<open>k\<close> is gone.
\<close>

theorem lru_eviction:
  "map fst (index after_put_put_get) = [''A'', ''B'']
   \<and> put_evicted ''C'' ''c'' TextKind after_put_put_get = [''B'']
   \<and> map fst (index (put ''C'' ''c'' TextKind after_put_put_get)) = [''A'', ''C'']
   \<and> map fst (disk (put ''C'' ''c'' TextKind after_put_put_get)) = [''A'', ''C'']
   \<and> (over_capacity (config s) (index s) \<longrightarrow> fst (evict_if_over_capacity s) \<noteq> [])
   \<and> (evict_if_over_capacity s = (k # ks, s') \<longrightarrow>
        (\<exists>m. (k, m) \<in> set (index s)
           \<and> (\<forall>e \<in> set (index s).
                 last_accessed_at m \<le> last_accessed_at (snd e)
                 \<and> (last_accessed_at (snd e) = last_accessed_at m
                      \<longrightarrow> created_at m \<le> created_at (snd e)))
           \<and> evict_if_over_capacity
                (s\<lparr>index := AList.delete k (index s), disk := remove k (disk s)\<rparr>) = (ks, s')))"
proof (intro conjI impI)
  show "map fst (index after_put_put_get) = [''A'', ''B'']" by code_simp
  show "put_evicted ''C'' ''c'' TextKind after_put_put_get = [''B'']" by code_simp
  show "map fst (index (put ''C'' ''c'' TextKind after_put_put_get)) = [''A'', ''C'']"
    by code_simp
  show "map fst (disk (put ''C'' ''c'' TextKind after_put_put_get)) = [''A'', ''C'']"
    by code_simp
next
  assume "over_capacity (config s) (index s)"
  then show "fst (evict_if_over_capacity s) \<noteq> []" by (rule evict_nonempty)
next
  assume "evict_if_over_capacity s = (k # ks, s')"
  from evict_first [OF this] obtain m where
      m: "lru (index s) = Some (k, m)"
    and rest: "evict_if_over_capacity
                 (s\<lparr>index := AList.delete k (index s), disk := remove k (disk s)\<rparr>) = (ks, s')"
    by blast
  from lru_in_index [OF m] have "(k, m) \<in> set (index s)" .
  moreover have "\<forall>e \<in> set (index s).
                 last_accessed_at m \<le> last_accessed_at (snd e)
                 \<and> (last_accessed_at (snd e) = last_accessed_at m
                      \<longrightarrow> created_at m \<le> created_at (snd e))"
  proof
    fix e assume "e \<in> set (index s)"
    from lru_oldest [OF m this] show "last_accessed_at m \<le> last_accessed_at (snd e)
                 \<and> (last_accessed_at (snd e) = last_accessed_at m
                      \<longrightarrow> created_at m \<le> created_at (snd e))"
      by (auto simp: older_def)
  qed
  ultimately show "\<exists>m. (k, m) \<in> set (index s)
           \<and> (\<forall>e \<in> set (index s).
                 last_accessed_at m \<le> last_accessed_at (snd e)
                 \<and> (last_accessed_at (snd e) = last_accessed_at m
                      \<longrightarrow> created_at m \<le> created_at (snd e)))
           \<and> evict_if_over_capacity
                (s\<lparr>index := AList.delete k (index s), disk := remove k (disk s)\<rparr>) = (ks, s')"
    using rest by blast
qed

text \<open>
  The general part at \<open>tied_index\<close>: it is over capacity, \<open>X\<close> and \<open>Y\<close> tie on their last
  use, and the eviction returns \<open>Y\<close>, the one inserted first, and then stops.
\<close>

theorem lru_eviction_witness:
  "over_capacity (config tied_index) (index tied_index)
   \<and> fst (evict_if_over_capacity tied_index) \<noteq> []
   \<and> evict_if_over_capacity tied_index
       = ([''Y''], tied_index\<lparr>index := AList.delete ''Y'' (index tied_index),
                             disk := remove ''Y'' (disk tied_index)\<rparr>)
   \<and> (\<exists>m. (''Y'', m) \<in> set (index tied_index)
         \<and> evict_if_over_capacity
              (tied_index\<lparr>index := AList.delete ''Y'' (index tied_index),
                           disk := remove ''Y'' (disk tied_index)\<rparr>)
            = ([], tied_index\<lparr>index := AList.delete ''Y'' (index tied_index),
                                disk := remove ''Y'' (disk tied_index)\<rparr>))"
proof -
  let ?s' = "tied_index\<lparr>index := AList.delete ''Y'' (index tied_index),
                        disk := remove ''Y'' (disk tied_index)\<rparr>"
  have over: "over_capacity (config tied_index) (index tied_index)"
    by code_simp
  have ev: "evict_if_over_capacity tied_index = (''Y'' # [], ?s')"
    by code_simp
  note T = lru_eviction [where s = tied_index and k = "''Y''" and ks = "[]" and s' = ?s']
  have ne: "fst (evict_if_over_capacity tied_index) \<noteq> []"
    by (rule T [THEN conjunct2, THEN conjunct2, THEN conjunct2, THEN conjunct2,
                THEN conjunct1, THEN mp, OF over])
  from T [THEN conjunct2, THEN conjunct2, THEN conjunct2, THEN conjunct2,
          THEN conjunct2, THEN mp, OF ev]
  have "\<exists>m. (''Y'', m) \<in> set (index tied_index)
         \<and> evict_if_over_capacity ?s' = ([], ?s')"
    by blast
  with over ne ev show ?thesis by blast
qed

text \<open>
  Claim C4.  The empty cache satisfies the index invariant (no key twice; a key is in
  the index exactly when valid files for it are on the persistence layer; the index is
  within its entry and byte capacity), and every completed operation preserves it:
  \<open>lookup\<close>, \<open>touch\<close>, \<open>evict_if_over_capacity\<close>, \<open>insert\<close> of an entry whose payload has
  been written, and so \<open>put\<close>.  With a byte capacity of 100, inserting the 60-byte
  entry A and then the 60-byte entry B evicts A: the index and the persistence layer
  hold B only.
\<close>

theorem index_invariant_preserved:
  "index_invariant (empty_cache cfg)
   \<and> (index_invariant s \<longrightarrow>
        index_invariant (snd (lookup k s))
        \<and> index_invariant (touch k s)
        \<and> index_invariant (snd (evict_if_over_capacity s))
        \<and> (size_bytes m = length bytes \<longrightarrow>
             index_invariant (insert_entry k m' (s\<lparr>disk := write_entry k bytes m (disk s)\<rparr>)))
        \<and> index_invariant (put k bytes kind s))
   \<and> map fst (index after_first_insert) = [''A'']
   \<and> put_evicted ''B'' (replicate 60 CHR ''b'') ImageKind after_first_insert = [''A'']
   \<and> map fst (index (put ''B'' (replicate 60 CHR ''b'') ImageKind after_first_insert)) = [''B'']
   \<and> map fst (disk (put ''B'' (replicate 60 CHR ''b'') ImageKind after_first_insert)) = [''B'']"
proof (intro conjI impI)
  show "index_invariant (empty_cache cfg)" by (rule empty_invariant)
  show "map fst (index after_first_insert) = [''A'']" by code_simp
  show "put_evicted ''B'' (replicate 60 CHR ''b'') ImageKind after_first_insert = [''A'']"
    by code_simp
  show "map fst (index (put ''B'' (replicate 60 CHR ''b'') ImageKind after_first_insert)) = [''B'']"
    by code_simp
  show "map fst (disk (put ''B'' (replicate 60 CHR ''b'') ImageKind after_first_insert)) = [''B'']"
    by code_simp
next
  assume inv: "index_invariant s"
  then show "index_invariant (snd (lookup k s))" by (rule lookup_invariant)
  from inv show "index_invariant (touch k s)" by (rule touch_invariant)
  from inv have "consistent s" by (simp add: index_invariant_def)
  then show "index_invariant (snd (evict_if_over_capacity s))" by (rule evict_invariant)
  from inv show "index_invariant (put k bytes kind s)" by (rule put_invariant)
  assume "size_bytes m = length bytes"
  with inv show "index_invariant (insert_entry k m' (s\<lparr>disk := write_entry k bytes m (disk s)\<rparr>))"
    by (rule insert_entry_invariant)
qed

text \<open>
  The theorem along the second scenario: the invariant holds in the empty cache, so
  after the insert of A, so after the insert of B, and after a lookup of B.
\<close>

theorem index_invariant_preserved_witness:
  "index_invariant (empty_cache hundred_bytes)
   \<and> index_invariant after_first_insert
   \<and> index_invariant (put ''B'' (replicate 60 CHR ''b'') ImageKind after_first_insert)
   \<and> size_bytes \<lparr>size_bytes = 60, content_kind = ImageKind, created_at = 1,
                  last_accessed_at = 1\<rparr> = length (replicate 60 CHR ''b'')
   \<and> index_invariant
        (insert_entry ''B''
           \<lparr>size_bytes = 60, content_kind = ImageKind, created_at = 1, last_accessed_at = 1\<rparr>
           (after_first_insert
              \<lparr>disk := write_entry ''B'' (replicate 60 CHR ''b'')
                          \<lparr>size_bytes = 60, content_kind = ImageKind, created_at = 1,
                           last_accessed_at = 1\<rparr>
                          (disk after_first_insert)\<rparr>))
   \<and> index_invariant
        (snd (lookup ''B'' (put ''B'' (replicate 60 CHR ''b'') ImageKind after_first_insert)))"
proof -
  let ?m = "\<lparr>size_bytes = 60, content_kind = ImageKind, created_at = 1, last_accessed_at = 1\<rparr>"
  have e: "index_invariant (empty_cache hundred_bytes)"
    by (rule index_invariant_preserved [THEN conjunct1])
  have a: "index_invariant after_first_insert"
    unfolding after_first_insert_def
    by (rule index_invariant_preserved [THEN conjunct2, THEN conjunct1, THEN mp, OF e,
               THEN conjunct2, THEN conjunct2, THEN conjunct2, THEN conjunct2])
  note A = index_invariant_preserved [THEN conjunct2, THEN conjunct1, THEN mp, OF a]
  have b: "index_invariant (put ''B'' (replicate 60 CHR ''b'') ImageKind after_first_insert)"
    by (rule A [THEN conjunct2, THEN conjunct2, THEN conjunct2, THEN conjunct2])
  have sz: "size_bytes ?m = length (replicate 60 CHR ''b'')"
    by simp
  have i: "index_invariant
        (insert_entry ''B'' ?m
           (after_first_insert
              \<lparr>disk := write_entry ''B'' (replicate 60 CHR ''b'') ?m (disk after_first_insert)\<rparr>))"
    by (rule A [THEN conjunct2, THEN conjunct2, THEN conjunct2, THEN conjunct1, THEN mp, OF sz])
  have l: "index_invariant
        (snd (lookup ''B'' (put ''B'' (replicate 60 CHR ''b'') ImageKind after_first_insert)))"
    by (rule index_invariant_preserved [THEN conjunct2, THEN conjunct1, THEN mp, OF b,
               THEN conjunct1])
  show ?thesis by (intro conjI e a b sz i l)
qed

text \<open>
  A consequence of the capacity invariant for entries that do not fit: the eviction
  after the insert takes the new entry as well, so a \<open>get\<close> right after the \<open>put\<close>
  of a 150-byte entry under a byte capacity of 100 is a miss.
\<close>

lemma oversized_entry_not_kept:
  "put_evicted ''K'' (replicate 150 CHR ''v'') ImageKind (empty_cache hundred_bytes) = [''K'']
   \<and> fst (get ''K'' (put ''K'' (replicate 150 CHR ''v'') ImageKind (empty_cache hundred_bytes)))
       = None"
  by code_simp

end
